theory Spec2Isabelle
  imports
    Main
    "HOL-Library.Multiset"
    "HOL-Library.Char_ord"
    "HOL-Library.List_Lexorder"
    "HOL-Library.Product_Lexorder"
    "HOL-Library.Sublist"
begin

section \<open>League standings service: the data model of \<^verbatim>\<open>main.py\<close>\<close>

text \<open>
  The program is a small web service over three tables (\<^verbatim>\<open>players\<close>, \<^verbatim>\<open>events\<close>,
  \<^verbatim>\<open>results\<close>). Each request handler receives a fresh database session from
  \<^verbatim>\<open>get_db\<close>, which closes the session when the handler returns or raises.

  Modelling boundary. Strings are lists of \<^typ>\<open>char\<close> (code points 0..255). Python
  integers are \<^typ>\<open>int\<close>. The \<^verbatim>\<open>Integer\<close> columns hold signed 64-bit values: a larger
  value is refused by the driver when the row is written. Rows of the uploaded file are
  taken as \<^verbatim>\<open>csv.DictReader\<close> yields them, with both columns \<^verbatim>\<open>player\<close> and
  \<^verbatim>\<open>position\<close> present; reading and decoding the file is outside the model. The
  interpreter runs with its default limit of 4300 digits on the text \<^verbatim>\<open>int\<close> accepts.
  Where a query orders rows with equal sort keys, the database is free in their order;
  the model keeps them in storage order, and no property below depends on it. One
  request runs at a time.
\<close>

subsection \<open>Dates\<close>

datatype date = Date (year: int) (month: int) (day: int)

text \<open>Python compares dates as the triples (year, month, day).\<close>

definition date_key :: "date \<Rightarrow> int \<times> int \<times> int" where
  "date_key d = (year d, month d, day d)"

definition is_leap :: "int \<Rightarrow> bool" where
  "is_leap y \<longleftrightarrow> y mod 4 = 0 \<and> (y mod 100 \<noteq> 0 \<or> y mod 400 = 0)"

definition days_in_month :: "int \<Rightarrow> int \<Rightarrow> int" where
  "days_in_month y m =
     (if m = 2 then (if is_leap y then 29 else 28)
      else if m \<in> {4, 6, 9, 11} then 30 else 31)"

subsection \<open>Errors and responses\<close>

datatype error = ValueError | OverflowError | HTTPException nat string

text \<open>
  A handler answers with a redirect to \<^verbatim>\<open>/\<close> or to \<^verbatim>\<open>/events/{id}\<close> (status 303); a
  handler body that ends without a \<^verbatim>\<open>return\<close> yields \<^verbatim>\<open>None\<close>.
\<close>

datatype url = Root | Events_id int

datatype response = RedirectResponse url nat | Returned_None

subsection \<open>Tables\<close>

text \<open>
  Field names carry a prefix where two tables share a column name (\<^verbatim>\<open>id\<close>,
  \<^verbatim>\<open>name\<close>).
\<close>

record Player =
  p_id :: int
  p_name :: string

record Event =
  e_id :: int
  e_name :: string
  event_date :: date
  start_time :: "string option"
  location :: "string option"
  format :: "string option"
  registration_url :: "string option"
  description :: "string option"

record Result =
  r_id :: int
  event_id :: int
  player_id :: int
  position :: int
  points :: int

record db =
  players :: "Player list"
  events :: "Event list"
  results :: "Result list"

definition empty_db :: db where
  "empty_db = \<lparr>players = [], events = [], results = []\<rparr>"

subsection \<open>The session: pending objects and commit\<close>

text \<open>
  \<^verbatim>\<open>db.add(x)\<close> registers a new object; nothing is written until \<^verbatim>\<open>db.commit()\<close>
  (the session is created with \<^verbatim>\<open>autoflush=False\<close>), which inserts the pending objects
  in the order they were added, each with the next row id of its table, and makes them
  durable. Queries read the stored rows. \<^verbatim>\<open>db.close()\<close> discards what is still
  pending.
\<close>

datatype new_row =
    New_Event string date "string option" "string option" "string option"
      "string option" "string option"
  | New_Player string
  | New_Result int int int int

record Session =
  stored :: db
  new :: "new_row list"

definition SessionLocal :: "db \<Rightarrow> Session" where
  "SessionLocal d = \<lparr>stored = d, new = []\<rparr>"

definition close :: "Session \<Rightarrow> db" where
  "close s = stored s"

definition add :: "new_row \<Rightarrow> Session \<Rightarrow> Session" where
  "add x s = s\<lparr>new := new s @ [x]\<rparr>"

text \<open>An integer primary key without a value gets the largest id of the table plus one.\<close>

definition next_id :: "int list \<Rightarrow> int" where
  "next_id ids = (if ids = [] then 1 else Max (set ids) + 1)"

definition fits_int64 :: "int \<Rightarrow> bool" where
  "fits_int64 i \<longleftrightarrow> - (2 ^ 63) \<le> i \<and> i < 2 ^ 63"

text \<open>
  The position is the only integer of a row that comes from the request; row ids are
  given by the database and points come from the scoring table.
\<close>

fun storable :: "new_row \<Rightarrow> bool" where
  "storable (New_Result ev pl pos pts) \<longleftrightarrow> fits_int64 pos"
| "storable _ \<longleftrightarrow> True"

fun flush_row :: "new_row \<Rightarrow> db \<Rightarrow> db" where
  "flush_row (New_Event n d st loc fmt url descr) s =
     s\<lparr>events := events s @
        [\<lparr>e_id = next_id (map e_id (events s)), e_name = n, event_date = d,
          start_time = st, location = loc, format = fmt, registration_url = url,
          description = descr\<rparr>]\<rparr>"
| "flush_row (New_Player n) s =
     s\<lparr>players := players s @ [\<lparr>p_id = next_id (map p_id (players s)), p_name = n\<rparr>]\<rparr>"
| "flush_row (New_Result ev pl pos pts) s =
     s\<lparr>results := results s @
        [\<lparr>r_id = next_id (map r_id (results s)), event_id = ev, player_id = pl,
          position = pos, points = pts\<rparr>]\<rparr>"

text \<open>
  A commit whose flush fails writes nothing: the transaction is rolled back and the
  exception leaves the handler.
\<close>

definition commit :: "Session \<Rightarrow> error option \<times> Session" where
  "commit s =
     (if list_all storable (new s)
      then (None, \<lparr>stored = fold flush_row (new s) (stored s), new = []\<rparr>)
      else (Some OverflowError, s))"

text \<open>
  \<^verbatim>\<open>db.refresh(x)\<close> after the commit that inserted \<^verbatim>\<open>x\<close> loads the row just
  written, the last of its table.
\<close>

definition refresh_event :: "Session \<Rightarrow> Event" where
  "refresh_event s = last (events (stored s))"

definition refresh_player :: "Session \<Rightarrow> Player" where
  "refresh_player s = last (players (stored s))"

subsection \<open>The scoring table\<close>

definition POINTS_TABLE :: "(int \<times> int) list" where
  "POINTS_TABLE =
     [(1, 25), (2, 18), (3, 15), (4, 12), (5, 10), (6, 8), (7, 6), (8, 4), (9, 2), (10, 1)]"

text \<open>\<^verbatim>\<open>POINTS_TABLE.get(position, 0)\<close>\<close>

definition points_for :: "int \<Rightarrow> int" where
  "points_for pos = (case map_of POINTS_TABLE pos of Some v \<Rightarrow> v | None \<Rightarrow> 0)"

subsection \<open>Text to values: \<^verbatim>\<open>str.strip\<close>, \<^verbatim>\<open>int\<close>, \<^verbatim>\<open>str.split\<close>, \<^verbatim>\<open>date\<close>\<close>

definition isspace :: "char \<Rightarrow> bool" where
  "isspace c \<longleftrightarrow> (of_char c :: nat) \<in> {9, 10, 11, 12, 13, 28, 29, 30, 31, 32, 133, 160}"

definition strip :: "string \<Rightarrow> string" where
  "strip s = rev (dropWhile isspace (rev (dropWhile isspace s)))"

text \<open>
  \<^verbatim>\<open>int(s)\<close> on text: surrounding white space is skipped, then an optional sign, then
  decimal digits, where single underscores may stand between digits. Anything else
  raises \<^verbatim>\<open>ValueError\<close>, here \<open>None\<close>.
\<close>

definition int_space :: "char \<Rightarrow> bool" where
  "int_space c \<longleftrightarrow> (of_char c :: nat) \<in> {9, 10, 11, 12, 13, 32, 133, 160}"

definition is_digit :: "char \<Rightarrow> bool" where
  "is_digit c \<longleftrightarrow> 48 \<le> (of_char c :: nat) \<and> (of_char c :: nat) \<le> 57"

definition digit_val :: "char \<Rightarrow> int" where
  "digit_val c = int (of_char c) - 48"

fun scan_digits :: "string \<Rightarrow> bool \<Rightarrow> int \<Rightarrow> int option" where
  "scan_digits [] prev_underscore acc = (if prev_underscore then None else Some acc)"
| "scan_digits (c # cs) prev_underscore acc =
     (if c = CHR ''_'' then (if prev_underscore then None else scan_digits cs True acc)
      else if is_digit c then scan_digits cs False (10 * acc + digit_val c)
      else None)"

text \<open>More than 4300 digits (underscores not counted) are refused.\<close>

definition parse_digits :: "string \<Rightarrow> int option" where
  "parse_digits s =
     (case s of [] \<Rightarrow> None
      | c # cs \<Rightarrow>
          if \<not> is_digit c then None
          else if 4300 < length (filter is_digit s) then None
          else scan_digits s False 0)"

definition py_int :: "string \<Rightarrow> int option" where
  "py_int s =
     (case rev (dropWhile int_space (rev (dropWhile int_space s))) of
        [] \<Rightarrow> None
      | c # cs \<Rightarrow>
          if c = CHR ''-'' then map_option uminus (parse_digits cs)
          else if c = CHR ''+'' then parse_digits cs
          else parse_digits (c # cs))"

text \<open>\<^verbatim>\<open>s.split(sep)\<close> with a one-character separator: always at least one part.\<close>

fun split :: "char \<Rightarrow> string \<Rightarrow> string list" where
  "split sep [] = [[]]"
| "split sep (c # cs) =
     (if c = sep then [] # split sep cs
      else (case split sep cs of [] \<Rightarrow> [[c]] | p # ps \<Rightarrow> (c # p) # ps))"

text \<open>
  \<^verbatim>\<open>date(y, m, d)\<close>: the arguments are converted to C integers first
  (\<^verbatim>\<open>OverflowError\<close>), then checked against the calendar (\<^verbatim>\<open>ValueError\<close>).
\<close>

definition fits_c_int :: "int \<Rightarrow> bool" where
  "fits_c_int i \<longleftrightarrow> - (2 ^ 31) \<le> i \<and> i < 2 ^ 31"

definition new_date :: "int \<Rightarrow> int \<Rightarrow> int \<Rightarrow> error + date" where
  "new_date y m d =
     (if \<not> (fits_c_int y \<and> fits_c_int m \<and> fits_c_int d) then Inl OverflowError
      else if 1 \<le> y \<and> y \<le> 9999 \<and> 1 \<le> m \<and> m \<le> 12 \<and> 1 \<le> d \<and> d \<le> days_in_month y m
      then Inr (Date y m d)
      else Inl ValueError)"

text \<open>
  \<^verbatim>\<open>y, m, d = [int(x) for x in event_date.split("-")]; ev_date = date(y, m, d)\<close>
\<close>

definition parse_event_date :: "string \<Rightarrow> error + date" where
  "parse_event_date text =
     (let parts = map py_int (split CHR ''-'' text) in
      if None \<in> set parts then Inl ValueError
      else (case parts of
              [Some y, Some m, Some d] \<Rightarrow> new_date y m d
            | _ \<Rightarrow> Inl ValueError))"

section \<open>The request handlers\<close>

text \<open>\<^verbatim>\<open>Depends(get_db)\<close>: open a session, run the handler, close the session.\<close>

definition get_db :: "(Session \<Rightarrow> 'a \<times> Session) \<Rightarrow> db \<Rightarrow> 'a \<times> db" where
  "get_db handler d = (case handler (SessionLocal d) of (r, s) \<Rightarrow> (r, close s))"

subsection \<open>\<^verbatim>\<open>read_standings\<close>\<close>

text \<open>
  \<^verbatim>\<open>SELECT players.name, sum(results.points) FROM players JOIN results ON players.id =
  results.player_id GROUP BY players.id ORDER BY sum(results.points) DESC, players.name ASC\<close>
\<close>

definition group_by :: "('a \<Rightarrow> 'k) \<Rightarrow> 'a list \<Rightarrow> 'a list list" where
  "group_by f xs = map (\<lambda>k. filter (\<lambda>x. f x = k) xs) (remdups (map f xs))"

definition standings_query :: "db \<Rightarrow> (string \<times> int) list" where
  "standings_query d =
     (let joined = [(p, r). p \<leftarrow> players d, r \<leftarrow> results d, p_id p = player_id r];
          rows = map (\<lambda>g. (p_name (fst (hd g)), sum_list (map (points \<circ> snd) g)))
                   (group_by (p_id \<circ> fst) joined)
      in sort_key (\<lambda>(name, total_points). (- total_points, name)) rows)"

text \<open>
  The words of the standings contract: a player has a result, and the total of a
  player's points over all results.
\<close>

definition has_result :: "db \<Rightarrow> Player \<Rightarrow> bool" where
  "has_result d p \<longleftrightarrow> (\<exists>r \<in> set (results d). player_id r = p_id p)"

definition total_points :: "db \<Rightarrow> Player \<Rightarrow> int" where
  "total_points d p = sum_list (map points (filter (\<lambda>r. player_id r = p_id p) (results d)))"

definition read_standings_body :: "Session \<Rightarrow> (error + (string \<times> int) list) \<times> Session" where
  "read_standings_body db = (Inr (standings_query (stored db)), db)"

definition read_standings :: "db \<Rightarrow> (error + (string \<times> int) list) \<times> db" where
  "read_standings = get_db read_standings_body"

subsection \<open>\<^verbatim>\<open>read_events\<close>\<close>

text \<open>\<^verbatim>\<open>date.today()\<close> is a parameter of the model.\<close>

definition upcoming_events :: "date \<Rightarrow> db \<Rightarrow> Event list" where
  "upcoming_events today d =
     sort_key (\<lambda>e. date_key (event_date e))
       (filter (\<lambda>e. date_key today \<le> date_key (event_date e)) (events d))"

definition neg_key :: "int \<times> int \<times> int \<Rightarrow> int \<times> int \<times> int" where
  "neg_key k = (case k of (y, m, d) \<Rightarrow> (- y, - m, - d))"

definition past_events :: "date \<Rightarrow> db \<Rightarrow> Event list" where
  "past_events today d =
     sort_key (\<lambda>e. neg_key (date_key (event_date e)))
       (filter (\<lambda>e. date_key (event_date e) < date_key today) (events d))"

definition read_events_body ::
  "date \<Rightarrow> Session \<Rightarrow> (error + Event list \<times> Event list) \<times> Session" where
  "read_events_body today db =
     (Inr (upcoming_events today (stored db), past_events today (stored db)), db)"

definition read_events :: "date \<Rightarrow> db \<Rightarrow> (error + Event list \<times> Event list) \<times> db" where
  "read_events today = get_db (read_events_body today)"

subsection \<open>\<^verbatim>\<open>event_detail\<close>\<close>

definition event_results_query :: "int \<Rightarrow> db \<Rightarrow> Result list" where
  "event_results_query eid d =
     sort_key position
       (filter (\<lambda>r. event_id r = eid)
          [r. r \<leftarrow> results d, p \<leftarrow> players d, player_id r = p_id p])"

text \<open>
  The first query passes \<^verbatim>\<open>event_id\<close> to the database, which takes signed 64-bit
  integers only: for any other value the driver raises \<^verbatim>\<open>OverflowError\<close> before a
  row is looked up.
\<close>

definition event_detail_body ::
  "int \<Rightarrow> Session \<Rightarrow> (error + Event \<times> Result list) \<times> Session" where
  "event_detail_body eid db =
     (if \<not> fits_int64 eid then (Inl OverflowError, db)
      else
        (case find (\<lambda>e. e_id e = eid) (events (stored db)) of
           None \<Rightarrow> (Inl (HTTPException 404 ''Event not found''), db)
         | Some event \<Rightarrow> (Inr (event, event_results_query eid (stored db)), db)))"

definition event_detail :: "int \<Rightarrow> db \<Rightarrow> (error + Event \<times> Result list) \<times> db" where
  "event_detail eid = get_db (event_detail_body eid)"

subsection \<open>\<^verbatim>\<open>create_event\<close>\<close>

text \<open>\<^verbatim>\<open>x or None\<close> on an optional form field.\<close>

definition or_None :: "string option \<Rightarrow> string option" where
  "or_None x = (case x of None \<Rightarrow> None | Some s \<Rightarrow> if s = [] then None else Some s)"

definition create_event_body ::
  "string \<Rightarrow> string \<Rightarrow> string option \<Rightarrow> string option \<Rightarrow> string option \<Rightarrow>
   string option \<Rightarrow> string option \<Rightarrow> Session \<Rightarrow> (error + response) \<times> Session" where
  "create_event_body name date_text st loc fmt reg_url descr db =
     (case parse_event_date date_text of
        Inl err \<Rightarrow> (Inl err, db)
      | Inr ev_date \<Rightarrow>
          (case commit (add (New_Event name ev_date (or_None st) (or_None loc) (or_None fmt)
                               (or_None reg_url) (or_None descr)) db) of
             (Some err, db1) \<Rightarrow> (Inl err, db1)
           | (None, db1) \<Rightarrow>
               (Inr (RedirectResponse (Events_id (e_id (refresh_event db1))) 303), db1)))"

definition create_event ::
  "string \<Rightarrow> string \<Rightarrow> string option \<Rightarrow> string option \<Rightarrow> string option \<Rightarrow>
   string option \<Rightarrow> string option \<Rightarrow> db \<Rightarrow> (error + response) \<times> db" where
  "create_event name date_text st loc fmt reg_url descr =
     get_db (create_event_body name date_text st loc fmt reg_url descr)"

subsection \<open>\<^verbatim>\<open>upload_results\<close>\<close>

text \<open>
  The body of \<^verbatim>\<open>upload_results\<close> is lines 225 to 274 of the source. From the line
  \<^verbatim>\<open># Read CSV\<close> on, every statement, the final \<^verbatim>\<open>commit\<close> and the \<^verbatim>\<open>return\<close>
  included, is indented under \<^verbatim>\<open>if not event:\<close> and so belongs to that branch.
\<close>

record csv_row =
  col_player :: string
  col_position :: string

text \<open>Lines 255 to 260: find the player by name, or create, commit and refresh it.\<close>

definition resolve_player :: "string \<Rightarrow> Session \<Rightarrow> (error + Player) \<times> Session" where
  "resolve_player player_name db =
     (case find (\<lambda>p. p_name p = player_name) (players (stored db)) of
        Some player \<Rightarrow> (Inr player, db)
      | None \<Rightarrow>
          (case commit (add (New_Player player_name) db) of
             (Some err, db1) \<Rightarrow> (Inl err, db1)
           | (None, db1) \<Rightarrow> (Inr (refresh_player db1), db1)))"

text \<open>Lines 250 to 270: the loop over the rows of the file.\<close>

fun upload_rows :: "Event \<Rightarrow> csv_row list \<Rightarrow> Session \<Rightarrow> error option \<times> Session" where
  "upload_rows event [] db = (None, db)"
| "upload_rows event (row # reader) db =
     (let player_name = strip (col_player row) in
      case py_int (col_position row) of
        None \<Rightarrow> (Some ValueError, db)
      | Some pos \<Rightarrow>
          (case resolve_player player_name db of
             (Inl err, db1) \<Rightarrow> (Some err, db1)
           | (Inr player, db1) \<Rightarrow>
               upload_rows event reader
                 (add (New_Result (e_id event) (p_id player) pos (points_for pos)) db1)))"

definition upload_results_body ::
  "string \<Rightarrow> string \<Rightarrow> csv_row list \<Rightarrow> Session \<Rightarrow> (error + response) \<times> Session" where
  "upload_results_body event_name date_text file db =
     (case parse_event_date date_text of
        Inl err \<Rightarrow> (Inl err, db)
      | Inr ev_date \<Rightarrow>
          (case find (\<lambda>e. e_name e = event_name \<and> event_date e = ev_date)
                  (events (stored db)) of
             Some event \<Rightarrow> (Inr Returned_None, db)
           | None \<Rightarrow>
               (case commit (add (New_Event event_name ev_date None None None None None) db) of
                  (Some err, db1) \<Rightarrow> (Inl err, db1)
                | (None, db1) \<Rightarrow>
                    (case upload_rows (refresh_event db1) file db1 of
                       (Some err, db2) \<Rightarrow> (Inl err, db2)
                     | (None, db2) \<Rightarrow>
                         (case commit db2 of
                            (Some err, db3) \<Rightarrow> (Inl err, db3)
                          | (None, db3) \<Rightarrow> (Inr (RedirectResponse Root 303), db3))))))"

definition upload_results ::
  "string \<Rightarrow> string \<Rightarrow> csv_row list \<Rightarrow> db \<Rightarrow> (error + response) \<times> db" where
  "upload_results event_name date_text file = get_db (upload_results_body event_name date_text file)"

text \<open>
  Lines 230 to 241 taken by themselves: find the event by name and date, or create,
  commit and refresh it.
\<close>

definition resolve_event :: "string \<Rightarrow> date \<Rightarrow> Session \<Rightarrow> (error + Event) \<times> Session" where
  "resolve_event event_name ev_date db =
     (case find (\<lambda>e. e_name e = event_name \<and> event_date e = ev_date) (events (stored db)) of
        Some event \<Rightarrow> (Inr event, db)
      | None \<Rightarrow>
          (case commit (add (New_Event event_name ev_date None None None None None) db) of
             (Some err, db1) \<Rightarrow> (Inl err, db1)
           | (None, db1) \<Rightarrow> (Inr (refresh_event db1), db1)))"

text \<open>The session right after the event of an upload has been created and committed.\<close>

definition event_created :: "string \<Rightarrow> date \<Rightarrow> db \<Rightarrow> Session" where
  "event_created event_name ev_date d =
     \<lparr>stored = flush_row (New_Event event_name ev_date None None None None None) d, new = []\<rparr>"

subsection \<open>Reachable states and table constraints\<close>

inductive reachable :: "db \<Rightarrow> bool" where
  initial: "reachable empty_db"
| after_upload_results:
    "reachable d \<Longrightarrow> reachable (snd (upload_results event_name date_text file d))"
| after_create_event:
    "reachable d \<Longrightarrow> reachable (snd (create_event name date_text st loc fmt reg_url descr d))"
| after_read_standings: "reachable d \<Longrightarrow> reachable (snd (read_standings d))"
| after_read_events: "reachable d \<Longrightarrow> reachable (snd (read_events today d))"
| after_event_detail: "reachable d \<Longrightarrow> reachable (snd (event_detail eid d))"

text \<open>
  The constraints the tables are meant to satisfy: primary keys, the unique player name,
  the two foreign keys of a result, and points derived from the position.
\<close>

definition db_inv :: "db \<Rightarrow> bool" where
  "db_inv d \<longleftrightarrow>
     distinct (map p_id (players d)) \<and> distinct (map p_name (players d)) \<and>
     distinct (map e_id (events d)) \<and> distinct (map r_id (results d)) \<and>
     (\<forall>r \<in> set (results d).
        player_id r \<in> p_id ` set (players d) \<and> event_id r \<in> e_id ` set (events d) \<and>
        points r = points_for (position r))"

fun pending_ok :: "db \<Rightarrow> new_row \<Rightarrow> bool" where
  "pending_ok d (New_Result ev pl pos pts) \<longleftrightarrow>
     ev \<in> e_id ` set (events d) \<and> pl \<in> p_id ` set (players d) \<and> pts = points_for pos"
| "pending_ok d _ \<longleftrightarrow> False"

definition sess_inv :: "Session \<Rightarrow> bool" where
  "sess_inv s \<longleftrightarrow> db_inv (stored s) \<and> (\<forall>x \<in> set (new s). pending_ok (stored s) x)"

subsection \<open>Auxiliary notions for the properties\<close>

text \<open>The join of the standings query, the row set it is meant to return, its sort key,
  and an example state.\<close>

definition joined :: "Player list \<Rightarrow> Result list \<Rightarrow> (Player \<times> Result) list" where
  "joined ps rs = [(p, r). p \<leftarrow> ps, r \<leftarrow> rs, p_id p = player_id r]"

text \<open>The row the query computes for the group of players with id \<open>k\<close>.\<close>

definition group_row :: "db \<Rightarrow> int \<Rightarrow> string \<times> int" where
  "group_row d k =
     (let g = filter (\<lambda>x. (p_id \<circ> fst) x = k) (joined (players d) (results d))
      in (p_name (fst (hd g)), sum_list (map (points \<circ> snd) g)))"

definition standings_rows :: "db \<Rightarrow> (string \<times> int) set" where
  "standings_rows d =
     {(p_name p, total_points d p) |p. p \<in> set (players d) \<and> has_result d p}"

definition standings_key :: "string \<times> int \<Rightarrow> int \<times> string" where
  "standings_key = (\<lambda>(name, total_points). (- total_points, name))"

definition season_db :: db where
  "season_db =
     \<lparr>players =
        [\<lparr>p_id = 1, p_name = ''Bob''\<rparr>, \<lparr>p_id = 2, p_name = ''Carol''\<rparr>,
         \<lparr>p_id = 3, p_name = ''Alice''\<rparr>, \<lparr>p_id = 4, p_name = ''Dave''\<rparr>,
         \<lparr>p_id = 5, p_name = ''Zed''\<rparr>],
      events =
        [\<lparr>e_id = 1, e_name = ''A'', event_date = Date 2024 5 1, start_time = None,
           location = None, format = None, registration_url = None, description = None\<rparr>,
         \<lparr>e_id = 2, e_name = ''B'', event_date = Date 2024 6 1, start_time = None,
           location = None, format = None, registration_url = None, description = None\<rparr>],
      results =
        [\<lparr>r_id = 1, event_id = 1, player_id = 1, position = 1, points = 25\<rparr>,
         \<lparr>r_id = 2, event_id = 1, player_id = 2, position = 2, points = 18\<rparr>,
         \<lparr>r_id = 3, event_id = 1, player_id = 3, position = 1, points = 25\<rparr>,
         \<lparr>r_id = 4, event_id = 1, player_id = 4, position = 11, points = 0\<rparr>]\<rparr>"

text \<open>An event row has the identity (name, date).\<close>

definition same_identity :: "string \<Rightarrow> date \<Rightarrow> Event \<Rightarrow> bool" where
  "same_identity n dt e \<longleftrightarrow> e_name e = n \<and> event_date e = dt"

text \<open>
  A row is well formed when its position parses and fits the column. The data of a
  result row without its id; the results of a session, stored and pending, in the order
  they were added; the result a row of the file stands for; the event row an upload
  creates.
\<close>

text \<open>The player name of a row, as the loop reads it.\<close>

definition row_name :: "csv_row \<Rightarrow> string" where
  "row_name row = strip (col_player row)"

definition well_formed :: "csv_row \<Rightarrow> bool" where
  "well_formed row \<longleftrightarrow>
     (case py_int (col_position row) of None \<Rightarrow> False | Some pos \<Rightarrow> fits_int64 pos)"

definition result_data :: "Result \<Rightarrow> int \<times> int \<times> int \<times> int" where
  "result_data r = (event_id r, player_id r, position r, points r)"

fun pending_data :: "new_row \<Rightarrow> (int \<times> int \<times> int \<times> int) list" where
  "pending_data (New_Result ev pl pos pts) = [(ev, pl, pos, pts)]"
| "pending_data _ = []"

definition ledger :: "Session \<Rightarrow> (int \<times> int \<times> int \<times> int) list" where
  "ledger s = map result_data (results (stored s)) @ concat (map pending_data (new s))"

definition row_result :: "Event \<Rightarrow> db \<Rightarrow> csv_row \<Rightarrow> int \<times> int \<times> int \<times> int \<Rightarrow> bool" where
  "row_result event d row t \<longleftrightarrow>
     (\<exists>p \<in> set (players d). \<exists>pos. p_name p = strip (col_player row) \<and>
        py_int (col_position row) = Some pos \<and>
        t = (e_id event, p_id p, pos, points_for pos))"

definition created_event :: "string \<Rightarrow> date \<Rightarrow> db \<Rightarrow> Event" where
  "created_event n dt d =
     \<lparr>e_id = next_id (map e_id (events d)), e_name = n, event_date = dt, start_time = None,
      location = None, format = None, registration_url = None, description = None\<rparr>"

section \<open>Properties\<close>

subsection \<open>The table constraints hold in every reachable state\<close>

lemma next_id_fresh: "next_id ids \<notin> set ids"
proof (cases "ids = []")
  case True
  then show ?thesis by simp
next
  case False
  have "\<And>i. i \<in> set ids \<Longrightarrow> i \<le> Max (set ids)" by simp
  then have "Max (set ids) + 1 \<notin> set ids" by fastforce
  with False show ?thesis by (simp add: next_id_def)
qed

lemma next_id_fresh_map: "x \<in> set xs \<Longrightarrow> next_id (map f xs) \<noteq> f x"
  using next_id_fresh [of "map f xs"] by force

lemmas next_id_fresh_tables =
  next_id_fresh_map [where f = p_id] next_id_fresh_map [where f = e_id]
  next_id_fresh_map [where f = r_id]

lemma flush_result_tables:
  "players (flush_row (New_Result ev pl pos pts) d) = players d"
  "events (flush_row (New_Result ev pl pos pts) d) = events d"
  by simp_all

lemma pending_ok_mono:
  "pending_ok d x \<Longrightarrow> set (players d) \<subseteq> set (players d') \<Longrightarrow>
   set (events d) \<subseteq> set (events d') \<Longrightarrow> pending_ok d' x"
  by (cases x) auto

lemma flush_result_inv:
  assumes "db_inv d" "pending_ok d x"
  shows "db_inv (flush_row x d)" "players (flush_row x d) = players d"
    "events (flush_row x d) = events d"
  using assms by (cases x; auto simp: db_inv_def dest: next_id_fresh_tables)+

lemma fold_flush_results:
  "db_inv d \<Longrightarrow> \<forall>x \<in> set xs. pending_ok d x \<Longrightarrow>
   db_inv (fold flush_row xs d) \<and> players (fold flush_row xs d) = players d \<and>
   events (fold flush_row xs d) = events d"
proof (induction xs arbitrary: d)
  case Nil
  then show ?case by simp
next
  case (Cons x xs)
  have x: "pending_ok d x" using Cons.prems by simp
  note fl = flush_result_inv [OF Cons.prems(1) x]
  have "\<forall>y \<in> set xs. pending_ok (flush_row x d) y"
    using Cons.prems(2) fl(2,3) by (auto intro: pending_ok_mono)
  from Cons.IH [OF fl(1) this] fl show ?case by simp
qed

lemma flush_player_inv:
  assumes "db_inv d" "n \<notin> p_name ` set (players d)"
  shows "db_inv (flush_row (New_Player n) d)"
  using assms by (auto simp: db_inv_def dest: next_id_fresh_tables)

lemma flush_event_inv:
  assumes "db_inv d"
  shows "db_inv (flush_row (New_Event n dt st loc fmt url descr) d)"
  using assms by (auto simp: db_inv_def dest: next_id_fresh_tables)


lemma commit_results_inv:
  assumes "sess_inv s"
  shows "db_inv (stored (snd (commit s)))"
    and "fst (commit s) = None \<Longrightarrow> sess_inv (snd (commit s))"
    and "players (stored (snd (commit s))) = players (stored s)"
    and "events (stored (snd (commit s))) = events (stored s)"
  using assms fold_flush_results [of "stored s" "new s"]
  by (auto simp: commit_def sess_inv_def)

lemma find_player_name:
  "find (\<lambda>p. p_name p = n) ps = Some p \<Longrightarrow> p \<in> set ps \<and> p_name p = n"
  by (auto simp: find_Some_iff)

lemma find_player_None:
  "find (\<lambda>p. p_name p = n) ps = None \<longleftrightarrow> n \<notin> p_name ` set ps"
  by (auto simp: find_None_iff)

lemma commit_add_player:
  assumes "sess_inv s" "n \<notin> p_name ` set (players (stored s))"
    and "commit (add (New_Player n) s) = (None, s1)"
  shows "sess_inv s1" "new s1 = []"
    "players (stored s1) =
       players (stored s) @ [\<lparr>p_id = next_id (map p_id (players (stored s))), p_name = n\<rparr>]"
    "events (stored s1) = events (stored s)"
proof -
  from assms(3) have s1: "s1 = \<lparr>stored = flush_row (New_Player n) (fold flush_row (new s) (stored s)), new = []\<rparr>"
    by (auto simp: commit_def add_def split: if_splits)
  have fl: "db_inv (fold flush_row (new s) (stored s))"
    "players (fold flush_row (new s) (stored s)) = players (stored s)"
    "events (fold flush_row (new s) (stored s)) = events (stored s)"
    using assms(1) fold_flush_results [of "stored s" "new s"] by (auto simp: sess_inv_def)
  have "db_inv (flush_row (New_Player n) (fold flush_row (new s) (stored s)))"
    by (rule flush_player_inv [OF fl(1)]) (simp add: fl(2) assms(2))
  then show "sess_inv s1" by (simp add: s1 sess_inv_def)
  show "new s1 = []" by (simp add: s1)
  show "players (stored s1) =
       players (stored s) @ [\<lparr>p_id = next_id (map p_id (players (stored s))), p_name = n\<rparr>]"
    by (simp add: s1 fl(2))
  show "events (stored s1) = events (stored s)" by (simp add: s1 fl(3))
qed

lemma commit_Some_same: "commit s = (Some err, s1) \<Longrightarrow> s1 = s"
  by (auto simp: commit_def split: if_splits)

lemma stored_add [simp]: "stored (add x s) = stored s"
  by (simp add: add_def)

lemma new_add [simp]: "new (add x s) = new s @ [x]"
  by (simp add: add_def)

lemma resolve_player_inv:
  assumes "sess_inv s"
  shows "case resolve_player n s of
           (Inl err, s1) \<Rightarrow> db_inv (stored s1) \<and> stored s1 = stored s
         | (Inr p, s1) \<Rightarrow> sess_inv s1 \<and> p \<in> set (players (stored s1)) \<and> p_name p = n \<and>
             events (stored s1) = events (stored s)"
proof (cases "find (\<lambda>p. p_name p = n) (players (stored s))")
  case (Some p)
  with assms show ?thesis
    by (auto simp: resolve_player_def dest: find_player_name)
next
  case None
  then have fresh: "n \<notin> p_name ` set (players (stored s))" by (simp add: find_player_None)
  obtain r s1 where c: "commit (add (New_Player n) s) = (r, s1)" by force
  show ?thesis
  proof (cases r)
    case (Some err)
    with c have "s1 = add (New_Player n) s" by (auto dest: commit_Some_same)
    with None c Some assms show ?thesis
      by (simp add: resolve_player_def sess_inv_def)
  next
    case None': None
    note ca = commit_add_player [OF assms fresh c [unfolded None']]
    from None c None' ca show ?thesis
      by (simp add: resolve_player_def refresh_player_def)
  qed
qed

lemma upload_rows_inv:
  "sess_inv s \<Longrightarrow> e_id event \<in> e_id ` set (events (stored s)) \<Longrightarrow>
   (case upload_rows event rows s of
      (Some err, s1) \<Rightarrow> db_inv (stored s1)
    | (None, s1) \<Rightarrow> sess_inv s1)"
proof (induction rows arbitrary: s)
  case Nil
  then show ?case by simp
next
  case (Cons row rows)
  show ?case
  proof (cases "py_int (col_position row)")
    case None
    with Cons.prems show ?thesis by (simp add: sess_inv_def)
  next
    case (Some pos)
    obtain r s1 where rp: "resolve_player (strip (col_player row)) s = (r, s1)" by force
    note inv = resolve_player_inv [OF Cons.prems(1), of "strip (col_player row)", unfolded rp]
    show ?thesis
    proof (cases r)
      case (Inl err)
      with inv have "db_inv (stored s1)" by auto
      with Some rp Inl show ?thesis by simp
    next
      case (Inr p)
      with inv have s1: "sess_inv s1" "p \<in> set (players (stored s1))"
        "events (stored s1) = events (stored s)" by simp_all
      let ?s2 = "add (New_Result (e_id event) (p_id p) pos (points_for pos)) s1"
      have "sess_inv ?s2"
        using s1 Cons.prems(2) by (auto simp: sess_inv_def)
      moreover have "e_id event \<in> e_id ` set (events (stored ?s2))"
        using s1(3) Cons.prems(2) by simp
      ultimately have "case upload_rows event rows ?s2 of
          (Some err, s1) \<Rightarrow> db_inv (stored s1) | (None, s1) \<Rightarrow> sess_inv s1"
        by (rule Cons.IH)
      with Some rp Inr show ?thesis by simp
    qed
  qed
qed


lemma commit_add_event:
  "commit (add (New_Event n dt st loc fmt url descr) (SessionLocal d)) =
     (None, \<lparr>stored = flush_row (New_Event n dt st loc fmt url descr) d, new = []\<rparr>)"
  by (simp add: commit_def add_def SessionLocal_def)

lemma refresh_event_flush:
  "refresh_event \<lparr>stored = flush_row (New_Event n dt st loc fmt url descr) d, new = []\<rparr> =
     \<lparr>e_id = next_id (map e_id (events d)), e_name = n, event_date = dt, start_time = st,
      location = loc, format = fmt, registration_url = url, description = descr\<rparr>"
  by (simp add: refresh_event_def)

lemma sess_inv_event_created:
  assumes "db_inv d"
  shows "sess_inv \<lparr>stored = flush_row (New_Event n dt st loc fmt url descr) d, new = []\<rparr>"
  using flush_event_inv [OF assms] by (simp add: sess_inv_def)

lemma create_event_inv:
  assumes "db_inv d"
  shows "db_inv (snd (create_event name date_text st loc fmt reg_url descr d))"
proof (cases "parse_event_date date_text")
  case (Inl err)
  with assms show ?thesis
    by (simp add: create_event_def create_event_body_def get_db_def close_def SessionLocal_def)
next
  case (Inr ev_date)
  then show ?thesis
    using flush_event_inv [OF assms]
    by (simp add: create_event_def create_event_body_def get_db_def close_def commit_add_event)
qed

lemma stored_SessionLocal [simp]: "stored (SessionLocal d) = d"
  by (simp add: SessionLocal_def)

lemma upload_results_unparsed:
  "parse_event_date date_text = Inl err \<Longrightarrow>
   upload_results event_name date_text file d = (Inl err, d)"
  by (simp add: upload_results_def upload_results_body_def get_db_def close_def)

lemma upload_results_found:
  "parse_event_date date_text = Inr ev_date \<Longrightarrow>
   find (\<lambda>e. e_name e = event_name \<and> event_date e = ev_date) (events d) = Some event \<Longrightarrow>
   upload_results event_name date_text file d = (Inr Returned_None, d)"
  by (simp add: upload_results_def upload_results_body_def get_db_def close_def)

lemma upload_results_created:
  assumes "parse_event_date date_text = Inr ev_date"
    and "find (\<lambda>e. e_name e = event_name \<and> event_date e = ev_date) (events d) = None"
  shows "upload_results event_name date_text file d =
     (case upload_rows (refresh_event (event_created event_name ev_date d)) file
             (event_created event_name ev_date d) of
        (Some err, s2) \<Rightarrow> (Inl err, stored s2)
      | (None, s2) \<Rightarrow>
          (case commit s2 of
             (Some err, s3) \<Rightarrow> (Inl err, stored s3)
           | (None, s3) \<Rightarrow> (Inr (RedirectResponse Root 303), stored s3)))"
  unfolding upload_results_def upload_results_body_def get_db_def close_def event_created_def
  using assms by (simp add: commit_add_event split: prod.splits option.splits)

lemma upload_results_inv:
  assumes "db_inv d"
  shows "db_inv (snd (upload_results event_name date_text file d))"
proof (cases "parse_event_date date_text")
  case (Inl err)
  with assms show ?thesis by (simp add: upload_results_unparsed)
next
  case (Inr ev_date)
  show ?thesis
  proof (cases "find (\<lambda>e. e_name e = event_name \<and> event_date e = ev_date) (events d)")
    case (Some event)
    with Inr assms show ?thesis by (simp add: upload_results_found)
  next
    case None
    let ?s1 = "event_created event_name ev_date d"
    have s1: "sess_inv ?s1"
      unfolding event_created_def by (rule sess_inv_event_created [OF assms])
    have ev: "e_id (refresh_event ?s1) \<in> e_id ` set (events (stored ?s1))"
      by (simp add: refresh_event_def event_created_def)
    obtain r s2 where ur: "upload_rows (refresh_event ?s1) file ?s1 = (r, s2)" by force
    note inv = upload_rows_inv [OF s1 ev, of "file", unfolded ur]
    note body = upload_results_created [OF Inr None, of "file", unfolded ur]
    show ?thesis
    proof (cases r)
      case None
      with inv have "sess_inv s2" by simp
      then have "db_inv (stored (snd (commit s2)))" by (rule commit_results_inv)
      with body None show ?thesis by (simp split: prod.splits option.splits)
    next
      case (Some err)
      with inv body show ?thesis by simp
    qed
  qed
qed

lemma reads_keep_db [simp]:
  "snd (read_standings d) = d" "snd (read_events today d) = d" "snd (event_detail eid d) = d"
  by (simp_all add: read_standings_def read_standings_body_def read_events_def
      read_events_body_def event_detail_def event_detail_body_def get_db_def close_def
      SessionLocal_def split: option.splits)

lemma db_inv_empty: "db_inv empty_db"
  by (simp add: db_inv_def empty_db_def)

lemma reachable_db_inv: "reachable d \<Longrightarrow> db_inv d"
  by (induction rule: reachable.induct)
    (simp_all add: db_inv_empty upload_results_inv create_event_inv)

subsection \<open>Scoring\<close>

lemma points_for_table:
  "points_for 1 = 25" "points_for 2 = 18" "points_for 3 = 15" "points_for 4 = 12"
  "points_for 5 = 10" "points_for 6 = 8" "points_for 7 = 6" "points_for 8 = 4"
  "points_for 9 = 2" "points_for 10 = 1"
  by (simp_all add: points_for_def POINTS_TABLE_def)

lemma points_for_outside: "p < 1 \<or> 10 < p \<Longrightarrow> points_for p = 0"
  by (auto simp: points_for_def POINTS_TABLE_def)

lemma points_for_cases:
  "points_for p \<in> {0, 1, 2, 4, 6, 8, 10, 12, 15, 18, 25}"
  by (simp add: points_for_def POINTS_TABLE_def)

text \<open>
  C4. \<open>points_for\<close> returns a value for every integer, with no error case: positions 1
  to 10 give the values of the fixed table (25, 18, 15, 12, 10, 8, 6, 4, 2, 1), and
  every integer outside 1..10 (zero, negative, greater than 10) gives 0.
\<close>

theorem points_for_total_table:
  "points_for 1 = 25 \<and> points_for 2 = 18 \<and> points_for 3 = 15 \<and> points_for 4 = 12 \<and>
   points_for 5 = 10 \<and> points_for 6 = 8 \<and> points_for 7 = 6 \<and> points_for 8 = 4 \<and>
   points_for 9 = 2 \<and> points_for 10 = 1 \<and>
   (\<forall>p. p < 1 \<or> 10 < p \<longrightarrow> points_for p = 0)"
  using points_for_table points_for_outside by simp

theorem points_for_total_table_witness:
  "points_for 0 = 0 \<and> points_for (- 3) = 0 \<and> points_for 11 = 0"
proof -
  have outside: "\<And>p. p < 1 \<or> 10 < p \<Longrightarrow> points_for p = 0"
    using points_for_total_table by blast
  show ?thesis
    using outside [of 0] outside [of "- 3"] outside [of 11] by simp
qed

subsection \<open>Uploads for an event that exists\<close>

lemma find_event_Some:
  "\<exists>e \<in> set es. e_name e = n \<and> event_date e = dt \<Longrightarrow>
   \<exists>e. find (\<lambda>e. e_name e = n \<and> event_date e = dt) es = Some e"
  by (cases "find (\<lambda>e. e_name e = n \<and> event_date e = dt) es") (auto simp: find_None_iff)

text \<open>
  C9. In the source as written, an upload whose event name and date match an event that
  already exists changes nothing: no result is inserted, no player is created, the
  event row is left as it was, and the handler returns \<^verbatim>\<open>None\<close>.
\<close>

theorem upload_results_existing_event_unchanged:
  assumes "parse_event_date date_text = Inr ev_date"
    and "\<exists>e \<in> set (events d). e_name e = event_name \<and> event_date e = ev_date"
  shows "upload_results event_name date_text file d = (Inr Returned_None, d)"
proof -
  from find_event_Some [OF assms(2)] obtain e
    where "find (\<lambda>e. e_name e = event_name \<and> event_date e = ev_date) (events d) = Some e" ..
  with assms(1) show ?thesis by (rule upload_results_found)
qed

theorem upload_results_existing_event_unchanged_witness:
  "upload_results ''Cup'' ''2024-05-01'' [\<lparr>col_player = ''Alice'', col_position = ''1''\<rparr>]
     \<lparr>players = [],
      events = [\<lparr>e_id = 1, e_name = ''Cup'', event_date = Date 2024 5 1, start_time = None,
                 location = None, format = None, registration_url = None,
                 description = None\<rparr>],
      results = []\<rparr> =
   (Inr Returned_None,
     \<lparr>players = [],
      events = [\<lparr>e_id = 1, e_name = ''Cup'', event_date = Date 2024 5 1, start_time = None,
                 location = None, format = None, registration_url = None,
                 description = None\<rparr>],
      results = []\<rparr>)"
proof (rule upload_results_existing_event_unchanged [where ev_date = "Date 2024 5 1"])
  show "parse_event_date ''2024-05-01'' = Inr (Date 2024 5 1)" by code_simp
qed simp

text \<open>
  C1. One result is to be persisted for each row of the batch whether or not the event
  existed before. Evaluated on an event created through \<^verbatim>\<open>create_event\<close> and a batch
  of one well-formed row for it: the upload persists no result and no player.
\<close>

theorem upload_results_existing_event_adds_no_result:
  "upload_results ''Cup'' ''2024-05-01'' [\<lparr>col_player = ''Alice'', col_position = ''1''\<rparr>]
     (snd (create_event ''Cup'' ''2024-05-01'' None None None None None empty_db)) =
   (Inr Returned_None,
     \<lparr>players = [],
      events = [\<lparr>e_id = 1, e_name = ''Cup'', event_date = Date 2024 5 1, start_time = None,
                 location = None, format = None, registration_url = None,
                 description = None\<rparr>],
      results = []\<rparr>)"
  by code_simp

text \<open>
  C10. In every state the handlers can reach, every stored result has
  \<open>points = points_for position\<close>; its points are therefore one of 0, 1, 2, 4, 6, 8,
  10, 12, 15, 18, 25 and never negative.
\<close>

theorem results_points_invariant:
  assumes "reachable d" and "r \<in> set (results d)"
  shows "points r = points_for (position r) \<and>
         points r \<in> {0, 1, 2, 4, 6, 8, 10, 12, 15, 18, 25} \<and> 0 \<le> points r"
proof -
  from assms have eq: "points r = points_for (position r)"
    by (auto dest: reachable_db_inv simp: db_inv_def)
  moreover have "points_for (position r) \<in> {0, 1, 2, 4, 6, 8, 10, 12, 15, 18, 25}"
    by (rule points_for_cases)
  ultimately show ?thesis by auto
qed

theorem results_points_invariant_witness:
  "reachable (snd (upload_results ''Cup'' ''2024-05-01''
       [\<lparr>col_player = ''Alice'', col_position = ''3''\<rparr>] empty_db)) \<and>
   \<lparr>r_id = 1, event_id = 1, player_id = 1, position = 3, points = 15\<rparr> \<in>
     set (results (snd (upload_results ''Cup'' ''2024-05-01''
       [\<lparr>col_player = ''Alice'', col_position = ''3''\<rparr>] empty_db))) \<and>
   points \<lparr>r_id = 1, event_id = 1, player_id = 1, position = 3, points = 15\<rparr> =
     points_for (position \<lparr>r_id = 1, event_id = 1, player_id = 1, position = 3, points = 15\<rparr>)"
proof -
  let ?d = "snd (upload_results ''Cup'' ''2024-05-01''
       [\<lparr>col_player = ''Alice'', col_position = ''3''\<rparr>] empty_db)"
  let ?r = "\<lparr>r_id = 1, event_id = 1, player_id = 1, position = 3, points = 15\<rparr>"
  have r: "reachable ?d" by (rule after_upload_results [OF initial])
  have m: "?r \<in> set (results ?d)" by code_simp
  from results_points_invariant [OF r m] r m show ?thesis by blast
qed

subsection \<open>The events page\<close>

lemma neg_key_le: "neg_key a \<le> neg_key b \<longleftrightarrow> b \<le> a"
  by (cases a; cases b) (auto simp: neg_key_def less_eq_prod_def)

lemma read_events_eq:
  "read_events today d = (Inr (upcoming_events today d, past_events today d), d)"
  by (simp add: read_events_def read_events_body_def get_db_def close_def)

lemma upcoming_sorted:
  "sorted_wrt (\<lambda>a b. date_key (event_date a) \<le> date_key (event_date b))
     (upcoming_events today d)"
  using sorted_sort_key [of "\<lambda>e. date_key (event_date e)"]
  by (simp add: upcoming_events_def sorted_map)

lemma past_sorted:
  "sorted_wrt (\<lambda>a b. date_key (event_date b) \<le> date_key (event_date a))
     (past_events today d)"
  using sorted_sort_key [of "\<lambda>e. neg_key (date_key (event_date e))"]
  by (simp add: past_events_def sorted_map neg_key_le)

lemma partition_mset:
  "mset (upcoming_events today d) + mset (past_events today d) = mset (events d)"
proof -
  have "{#e \<in># mset (events d). date_key today \<le> date_key (event_date e)#} +
        {#e \<in># mset (events d). date_key (event_date e) < date_key today#} = mset (events d)"
    using multiset_partition [of "mset (events d)"
        "\<lambda>e. date_key today \<le> date_key (event_date e)"]
    by (simp add: not_le)
  then show ?thesis by (simp add: upcoming_events_def past_events_def)
qed

text \<open>
  C8. \<^verbatim>\<open>read_events\<close> splits the events by their date against today's date: an event
  dated today is in the upcoming list and not in the past list, every event is in exactly
  one of the two lists (and the two lists together hold each stored event as often as
  the table does), the upcoming list is in ascending and the past list in descending
  order of date. The stored state is returned unchanged.
\<close>

theorem read_events_partition:
  "read_events today d = (Inr (upcoming_events today d, past_events today d), d) \<and>
   (\<forall>e \<in> set (events d). event_date e = today \<longrightarrow>
      e \<in> set (upcoming_events today d) \<and> e \<notin> set (past_events today d)) \<and>
   (\<forall>e \<in> set (events d).
      (e \<in> set (upcoming_events today d)) \<noteq> (e \<in> set (past_events today d))) \<and>
   mset (upcoming_events today d) + mset (past_events today d) = mset (events d) \<and>
   (\<forall>e \<in> set (upcoming_events today d). date_key today \<le> date_key (event_date e)) \<and>
   (\<forall>e \<in> set (past_events today d). date_key (event_date e) < date_key today) \<and>
   sorted_wrt (\<lambda>a b. date_key (event_date a) \<le> date_key (event_date b))
     (upcoming_events today d) \<and>
   sorted_wrt (\<lambda>a b. date_key (event_date b) \<le> date_key (event_date a))
     (past_events today d)"
proof -
  have members:
    "set (upcoming_events today d) =
       {e \<in> set (events d). date_key today \<le> date_key (event_date e)}"
    "set (past_events today d) =
       {e \<in> set (events d). date_key (event_date e) < date_key today}"
    by (simp_all add: upcoming_events_def past_events_def)
  show ?thesis
    using read_events_eq upcoming_sorted past_sorted partition_mset
    by (auto simp: members)
qed

theorem read_events_partition_witness:
  "\<lparr>e_id = 2, e_name = ''Cup'', event_date = Date 2024 5 1, start_time = None,
     location = Some ''Hall'', format = None, registration_url = None, description = None\<rparr>
     \<in> set (events (snd (create_event ''Cup'' ''2024-05-01'' None (Some ''Hall'') None None None
           (snd (create_event ''Open'' ''2024-04-30'' None None None None None empty_db))))) \<and>
   \<lparr>e_id = 2, e_name = ''Cup'', event_date = Date 2024 5 1, start_time = None,
     location = Some ''Hall'', format = None, registration_url = None, description = None\<rparr>
     \<in> set (upcoming_events (Date 2024 5 1)
         (snd (create_event ''Cup'' ''2024-05-01'' None (Some ''Hall'') None None None
           (snd (create_event ''Open'' ''2024-04-30'' None None None None None empty_db))))) \<and>
   \<lparr>e_id = 2, e_name = ''Cup'', event_date = Date 2024 5 1, start_time = None,
     location = Some ''Hall'', format = None, registration_url = None, description = None\<rparr>
     \<notin> set (past_events (Date 2024 5 1)
         (snd (create_event ''Cup'' ''2024-05-01'' None (Some ''Hall'') None None None
           (snd (create_event ''Open'' ''2024-04-30'' None None None None None empty_db)))))"
proof -
  let ?d = "snd (create_event ''Cup'' ''2024-05-01'' None (Some ''Hall'') None None None
           (snd (create_event ''Open'' ''2024-04-30'' None None None None None empty_db)))"
  let ?e = "\<lparr>e_id = 2, e_name = ''Cup'', event_date = Date 2024 5 1, start_time = None,
     location = Some ''Hall'', format = None, registration_url = None, description = None\<rparr>"
  have m: "?e \<in> set (events ?d)" by code_simp
  have t: "event_date ?e = Date 2024 5 1" by simp
  have "\<forall>e \<in> set (events ?d). event_date e = Date 2024 5 1 \<longrightarrow>
      e \<in> set (upcoming_events (Date 2024 5 1) ?d) \<and> e \<notin> set (past_events (Date 2024 5 1) ?d)"
    using read_events_partition [of "Date 2024 5 1" ?d] by blast
  with m t show ?thesis by blast
qed

subsection \<open>The event page\<close>

lemma join_one_row:
  "distinct (map p_id ps) \<Longrightarrow> i \<in> p_id ` set ps \<Longrightarrow>
   concat (map (\<lambda>p. if i = p_id p then [r] else []) ps) = [r]"
proof (induction ps)
  case Nil
  then show ?case by simp
next
  case (Cons p ps)
  show ?case
  proof (cases "i = p_id p")
    case True
    with Cons.prems(1) have "\<forall>q \<in> set ps. i \<noteq> p_id q" by auto
    then have "concat (map (\<lambda>p. if i = p_id p then [r] else []) ps) = []" by simp
    with True show ?thesis by simp
  next
    case False
    with Cons show ?thesis by auto
  qed
qed

lemma join_players_all:
  assumes "distinct (map p_id ps)" and "\<forall>r \<in> set rs. player_id r \<in> p_id ` set ps"
  shows "[r. r \<leftarrow> rs, p \<leftarrow> ps, player_id r = p_id p] = rs"
  using assms(2)
proof (induction rs)
  case Nil
  then show ?case by simp
next
  case (Cons r rs)
  then show ?case by (simp add: join_one_row [OF assms(1)])
qed

lemma event_results_query_inv:
  assumes "db_inv d"
  shows "event_results_query eid d = sort_key position (filter (\<lambda>r. event_id r = eid) (results d))"
proof -
  from assms have "[r. r \<leftarrow> results d, p \<leftarrow> players d, player_id r = p_id p] = results d"
    by (intro join_players_all) (auto simp: db_inv_def)
  then show ?thesis by (simp add: event_results_query_def)
qed

lemma find_event_id_None:
  "find (\<lambda>e. e_id e = eid) es = None \<longleftrightarrow> eid \<notin> e_id ` set es"
  by (auto simp: find_None_iff)

lemma find_event_id_distinct:
  "distinct (map e_id es) \<Longrightarrow> e \<in> set es \<Longrightarrow> find (\<lambda>x. e_id x = e_id e) es = Some e"
  by (induction es) (auto simp: rev_image_eqI)

lemma event_detail_eq:
  "fits_int64 eid \<Longrightarrow>
   event_detail eid d =
     (case find (\<lambda>e. e_id e = eid) (events d) of
        None \<Rightarrow> (Inl (HTTPException 404 ''Event not found''), d)
      | Some event \<Rightarrow> (Inr (event, event_results_query eid d), d))"
  by (simp add: event_detail_def event_detail_body_def get_db_def close_def split: option.splits)

lemma event_detail_overflow:
  "\<not> fits_int64 eid \<Longrightarrow> event_detail eid d = (Inl OverflowError, d)"
  by (simp add: event_detail_def event_detail_body_def get_db_def close_def)

text \<open>
  C7, as amended. In every reachable state and for an id within the signed 64-bit
  range, \<^verbatim>\<open>event_detail\<close> fails exactly when no event has the requested id, and then
  with the 404 exception; otherwise it returns that event with all results of the
  event, each of them matched by a player row, in ascending order of position. For an id
  outside that range it fails with \<^verbatim>\<open>OverflowError\<close>. It never changes the stored
  state.
\<close>

theorem event_detail_results:
  assumes "reachable d"
  shows "(\<not> fits_int64 eid \<longrightarrow> fst (event_detail eid d) = Inl OverflowError) \<and>
    (fits_int64 eid \<longrightarrow>
       (isl (fst (event_detail eid d)) \<longleftrightarrow> eid \<notin> e_id ` set (events d)) \<and>
       (eid \<notin> e_id ` set (events d) \<longrightarrow>
          fst (event_detail eid d) = Inl (HTTPException 404 ''Event not found'')) \<and>
       (\<forall>e \<in> set (events d). e_id e = eid \<longrightarrow>
          fst (event_detail eid d) = Inr (e, event_results_query eid d))) \<and>
    mset (event_results_query eid d) = mset (filter (\<lambda>r. event_id r = eid) (results d)) \<and>
    sorted (map position (event_results_query eid d)) \<and>
    (\<forall>r \<in> set (event_results_query eid d). \<exists>p \<in> set (players d). p_id p = player_id r) \<and>
    snd (event_detail eid d) = d"
proof -
  from assms have inv: "db_inv d" by (rule reachable_db_inv)
  note q = event_results_query_inv [OF inv]
  have ovf: "\<not> fits_int64 eid \<Longrightarrow> fst (event_detail eid d) = Inl OverflowError"
    by (simp add: event_detail_overflow)
  have err: "fits_int64 eid \<Longrightarrow>
      isl (fst (event_detail eid d)) \<longleftrightarrow> eid \<notin> e_id ` set (events d)"
    by (simp add: event_detail_eq find_event_id_None [symmetric] split: option.splits)
  have nf: "fits_int64 eid \<Longrightarrow> eid \<notin> e_id ` set (events d) \<Longrightarrow>
       fst (event_detail eid d) = Inl (HTTPException 404 ''Event not found'')"
    by (simp add: event_detail_eq find_event_id_None [symmetric])
  have found: "\<And>e. fits_int64 eid \<Longrightarrow> e \<in> set (events d) \<Longrightarrow> e_id e = eid \<Longrightarrow>
       fst (event_detail eid d) = Inr (e, event_results_query eid d)"
  proof -
    fix e assume f: "fits_int64 eid" and "e \<in> set (events d)" "e_id e = eid"
    with inv have "find (\<lambda>x. e_id x = eid) (events d) = Some e"
      using find_event_id_distinct [of "events d" e] by (auto simp: db_inv_def)
    then show "fst (event_detail eid d) = Inr (e, event_results_query eid d)"
      by (simp add: event_detail_eq [OF f])
  qed
  have ms: "mset (event_results_query eid d) = mset (filter (\<lambda>r. event_id r = eid) (results d))"
    by (simp add: q)
  have so: "sorted (map position (event_results_query eid d))"
    by (simp add: q)
  have jn: "\<forall>r \<in> set (event_results_query eid d). \<exists>p \<in> set (players d). p_id p = player_id r"
    using inv by (fastforce simp: q db_inv_def)
  show ?thesis using ovf err nf found ms so jn by simp
qed

theorem event_detail_results_witness:
  "reachable (snd (upload_results ''Cup'' ''2024-05-01''
       [\<lparr>col_player = ''Cy'', col_position = ''3''\<rparr>,
        \<lparr>col_player = ''Al'', col_position = ''1''\<rparr>,
        \<lparr>col_player = ''Bo'', col_position = ''2''\<rparr>] empty_db)) \<and>
   fits_int64 7 \<and>
   7 \<notin> e_id ` set (events (snd (upload_results ''Cup'' ''2024-05-01''
       [\<lparr>col_player = ''Cy'', col_position = ''3''\<rparr>,
        \<lparr>col_player = ''Al'', col_position = ''1''\<rparr>,
        \<lparr>col_player = ''Bo'', col_position = ''2''\<rparr>] empty_db))) \<and>
   fst (event_detail 7 (snd (upload_results ''Cup'' ''2024-05-01''
       [\<lparr>col_player = ''Cy'', col_position = ''3''\<rparr>,
        \<lparr>col_player = ''Al'', col_position = ''1''\<rparr>,
        \<lparr>col_player = ''Bo'', col_position = ''2''\<rparr>] empty_db))) =
     Inl (HTTPException 404 ''Event not found'') \<and>
   map position (event_results_query 1 (snd (upload_results ''Cup'' ''2024-05-01''
       [\<lparr>col_player = ''Cy'', col_position = ''3''\<rparr>,
        \<lparr>col_player = ''Al'', col_position = ''1''\<rparr>,
        \<lparr>col_player = ''Bo'', col_position = ''2''\<rparr>] empty_db))) = [1, 2, 3] \<and>
   sorted (map position (event_results_query 1 (snd (upload_results ''Cup'' ''2024-05-01''
       [\<lparr>col_player = ''Cy'', col_position = ''3''\<rparr>,
        \<lparr>col_player = ''Al'', col_position = ''1''\<rparr>,
        \<lparr>col_player = ''Bo'', col_position = ''2''\<rparr>] empty_db)))) \<and>
   fst (event_detail (2 ^ 63) (snd (upload_results ''Cup'' ''2024-05-01''
       [\<lparr>col_player = ''Cy'', col_position = ''3''\<rparr>,
        \<lparr>col_player = ''Al'', col_position = ''1''\<rparr>,
        \<lparr>col_player = ''Bo'', col_position = ''2''\<rparr>] empty_db))) = Inl OverflowError"
proof -
  let ?d = "snd (upload_results ''Cup'' ''2024-05-01''
       [\<lparr>col_player = ''Cy'', col_position = ''3''\<rparr>,
        \<lparr>col_player = ''Al'', col_position = ''1''\<rparr>,
        \<lparr>col_player = ''Bo'', col_position = ''2''\<rparr>] empty_db)"
  have r: "reachable ?d" by (rule after_upload_results [OF initial])
  have fits: "fits_int64 7" by (simp add: fits_int64_def)
  have big: "\<not> fits_int64 (2 ^ 63)" by (simp add: fits_int64_def)
  have absent: "7 \<notin> e_id ` set (events ?d)" by code_simp
  have order: "map position (event_results_query 1 ?d) = [1, 2, 3]" by code_simp
  from event_detail_results [OF r, of 7] fits absent
  have "fst (event_detail 7 ?d) = Inl (HTTPException 404 ''Event not found'')" by blast
  moreover from event_detail_results [OF r, of 1]
  have "sorted (map position (event_results_query 1 ?d))" by blast
  moreover from event_detail_results [OF r, of "2 ^ 63"] big
  have "fst (event_detail (2 ^ 63) ?d) = Inl OverflowError" by blast
  ultimately show ?thesis using r fits absent order by blast
qed

text \<open>
  C7 as stated fails for an id outside the signed 64-bit range: no event has the id
  \<open>2 ^ 63\<close>, and the handler fails with \<^verbatim>\<open>OverflowError\<close>, not with the 404 exception.
\<close>

theorem event_detail_overflow_counterexample:
  "2 ^ 63 \<notin> e_id ` set (events empty_db) \<and>
   fst (event_detail (2 ^ 63) empty_db) = Inl OverflowError \<and>
   fst (event_detail (2 ^ 63) empty_db) \<noteq> Inl (HTTPException 404 ''Event not found'')"
  by (simp add: empty_db_def event_detail_overflow fits_int64_def)

subsection \<open>The standings page\<close>

lemma joined_block:
  "concat (map (\<lambda>r. if P r then [(p, r)] else []) rs) = map (Pair p) (filter P rs)"
  by (induction rs) auto

lemma joined_Nil [simp]: "joined [] rs = []"
  by (simp add: joined_def)

lemma joined_Cons:
  "joined (p # ps) rs = map (Pair p) (filter (\<lambda>r. player_id r = p_id p) rs) @ joined ps rs"
proof -
  have "filter (\<lambda>r. p_id p = player_id r) rs = filter (\<lambda>r. player_id r = p_id p) rs"
    by (rule filter_cong) auto
  then show ?thesis by (simp add: joined_def joined_block)
qed

lemma filter_joined:
  "filter (\<lambda>x. p_id (fst x) = i) (joined ps rs) = joined (filter (\<lambda>p. p_id p = i) ps) rs"
  by (induction ps) (auto simp: joined_Cons filter_map comp_def)

lemma filter_id_distinct:
  "distinct (map p_id ps) \<Longrightarrow> p \<in> set ps \<Longrightarrow> filter (\<lambda>q. p_id q = p_id p) ps = [p]"
proof (induction ps)
  case Nil
  then show ?case by simp
next
  case (Cons q ps)
  show ?case
  proof (cases "q = p")
    case True
    with Cons.prems have "p_id p \<notin> p_id ` set ps" by simp
    then have "\<forall>x \<in> set ps. p_id x \<noteq> p_id p" by (metis imageI)
    then have "filter (\<lambda>q. p_id q = p_id p) ps = []" by simp
    with True show ?thesis by simp
  next
    case False
    with Cons.prems have "p \<in> set ps" "p_id q \<noteq> p_id p" by force+
    with Cons show ?thesis by simp
  qed
qed

lemma group_of_player:
  assumes "distinct (map p_id ps)" "p \<in> set ps"
  shows "filter (\<lambda>x. (p_id \<circ> fst) x = p_id p) (joined ps rs) =
         map (Pair p) (filter (\<lambda>r. player_id r = p_id p) rs)"
  using filter_joined [of "p_id p" ps rs] filter_id_distinct [OF assms]
  by (simp add: joined_Cons)

lemma set_joined:
  "set (joined ps rs) = {(p, r). p \<in> set ps \<and> r \<in> set rs \<and> p_id p = player_id r}"
  by (auto simp: joined_def)


lemma group_ids:
  "set (map (p_id \<circ> fst) (joined ps rs)) =
     {p_id p |p. p \<in> set ps \<and> (\<exists>r \<in> set rs. player_id r = p_id p)}"
  by (force simp: set_joined)

lemma standings_query_rows:
  "standings_query d =
     sort_key (\<lambda>(name, total_points). (- total_points, name))
       (map (group_row d) (remdups (map (p_id \<circ> fst) (joined (players d) (results d)))))"
  by (simp add: standings_query_def group_by_def joined_def Let_def comp_def
      group_row_def [abs_def])

lemma group_row_player:
  assumes "distinct (map p_id (players d))" "p \<in> set (players d)" "has_result d p"
  shows "group_row d (p_id p) = (p_name p, total_points d p)"
proof -
  from assms(3) have "filter (\<lambda>r. player_id r = p_id p) (results d) \<noteq> []"
    by (auto simp: has_result_def filter_empty_conv)
  then show ?thesis
    unfolding group_row_def Let_def group_of_player [OF assms(1,2)] total_points_def
    by (simp add: hd_map comp_def)
qed


lemma inj_standings_key: "inj standings_key"
  by (auto simp: inj_on_def standings_key_def)

lemma standings_key_less:
  "standings_key a < standings_key b \<longleftrightarrow>
     snd b < snd a \<or> (snd a = snd b \<and> fst a < fst b)"
  by (cases a; cases b) (auto simp: standings_key_def less_prod_def)

lemma has_result_group_ids:
  "set (remdups (map (p_id \<circ> fst) (joined (players d) (results d)))) =
     {p_id p |p. p \<in> set (players d) \<and> has_result d p}"
  by (simp only: set_remdups group_ids has_result_def)

lemma unsorted_rows:
  assumes "distinct (map p_id (players d))"
  shows "set (map (group_row d) (remdups (map (p_id \<circ> fst) (joined (players d) (results d))))) =
         standings_rows d"
proof -
  have "group_row d ` {p_id p |p. p \<in> set (players d) \<and> has_result d p} = standings_rows d"
    using group_row_player [OF assms]
    by (force simp: standings_rows_def image_iff)
  then show ?thesis by (simp only: set_map has_result_group_ids)
qed

lemma player_by_name:
  "distinct (map p_name ps) \<Longrightarrow> p \<in> set ps \<Longrightarrow> q \<in> set ps \<Longrightarrow> p_name p = p_name q \<Longrightarrow>
   p = q"
  by (auto simp: distinct_map dest: inj_onD)

lemma unsorted_rows_distinct:
  assumes "distinct (map p_id (players d))" "distinct (map p_name (players d))"
  shows "distinct (map fst
     (map (group_row d) (remdups (map (p_id \<circ> fst) (joined (players d) (results d))))))"
proof -
  let ?ids = "remdups (map (p_id \<circ> fst) (joined (players d) (results d)))"
  have "inj_on (fst \<circ> group_row d) (set ?ids)"
  proof (rule inj_onI)
    fix k1 k2
    assume k1: "k1 \<in> set ?ids" and k2: "k2 \<in> set ?ids"
      and eq: "(fst \<circ> group_row d) k1 = (fst \<circ> group_row d) k2"
    from k1 obtain p1 where p1: "k1 = p_id p1" "p1 \<in> set (players d)" "has_result d p1"
      unfolding has_result_group_ids by blast
    from k2 obtain p2 where p2: "k2 = p_id p2" "p2 \<in> set (players d)" "has_result d p2"
      unfolding has_result_group_ids by blast
    from eq have "p_name p1 = p_name p2"
      by (simp add: p1(1) p2(1) group_row_player [OF assms(1) p1(2,3)]
          group_row_player [OF assms(1) p2(2,3)])
    with assms(2) p1(2) p2(2) have "p1 = p2" by (rule player_by_name)
    then show "k1 = k2" by (simp add: p1(1) p2(1))
  qed
  then have "distinct (map (fst \<circ> group_row d) ?ids)"
    by (simp add: distinct_map)
  then show ?thesis by (simp only: map_map)
qed

lemma standings_query_props:
  assumes "distinct (map p_id (players d))" "distinct (map p_name (players d))"
  shows "set (standings_query d) = standings_rows d"
    and "distinct (map fst (standings_query d))"
    and "sorted_wrt (\<lambda>a b. snd b < snd a \<or> (snd a = snd b \<and> fst a < fst b))
           (standings_query d)"
proof -
  let ?rows = "map (group_row d) (remdups (map (p_id \<circ> fst) (joined (players d) (results d))))"
  have q: "standings_query d = sort_key standings_key ?rows"
    by (simp only: standings_query_rows standings_key_def)
  show s: "set (standings_query d) = standings_rows d"
    by (simp only: q set_sort unsorted_rows [OF assms(1)])
  have "distinct (map fst ?rows)" by (rule unsorted_rows_distinct [OF assms])
  then have "distinct ?rows" "inj_on fst (set ?rows)" by (simp_all only: distinct_map)
  then have dq: "distinct (standings_query d)" "inj_on fst (set (standings_query d))"
    by (simp_all only: q set_sort distinct_sort)
  then show "distinct (map fst (standings_query d))" by (simp only: distinct_map)
  have "sorted (map standings_key (standings_query d))" by (simp only: q sorted_sort_key)
  moreover have "distinct (map standings_key (standings_query d))"
    using dq(1) inj_on_subset [OF inj_standings_key subset_UNIV]
    by (simp only: distinct_map simp_thms)
  ultimately have "sorted_wrt (<) (map standings_key (standings_query d))"
    by (simp only: strict_sorted_iff)
  then show "sorted_wrt (\<lambda>a b. snd b < snd a \<or> (snd a = snd b \<and> fst a < fst b))
           (standings_query d)"
    by (simp add: sorted_wrt_map standings_key_less)
qed


lemma total_points_mset:
  assumes "mset (results d') = mset (results d)"
  shows "total_points d' p = total_points d p"
proof -
  have h: "\<And>rs. sum_list (map points (filter (\<lambda>r. player_id r = p_id p) rs)) =
      sum_mset (image_mset points (filter_mset (\<lambda>r. player_id r = p_id p) (mset rs)))"
    by (simp flip: sum_mset_sum_list)
  show ?thesis by (simp only: total_points_def h assms)
qed

lemma standings_rows_perm:
  assumes "mset (players d') = mset (players d)" "mset (results d') = mset (results d)"
  shows "standings_rows d' = standings_rows d"
proof -
  have "set (players d') = set (players d)" "set (results d') = set (results d)"
    using assms by (auto dest: mset_eq_setD)
  then show ?thesis
    by (simp add: standings_rows_def has_result_def total_points_mset [OF assms(2)])
qed

lemma standings_query_perm:
  assumes "distinct (map p_id (players d))" "distinct (map p_name (players d))"
    and "mset (players d') = mset (players d)" "mset (results d') = mset (results d)"
  shows "standings_query d' = standings_query d"
proof -
  have m: "mset (map p_id (players d')) = mset (map p_id (players d))"
    "mset (map p_name (players d')) = mset (map p_name (players d))"
    by (simp_all only: mset_map assms(3))
  have d': "distinct (map p_id (players d'))" "distinct (map p_name (players d'))"
    using assms(1,2) mset_eq_imp_distinct_iff [OF m(1)] mset_eq_imp_distinct_iff [OF m(2)]
    by blast+
  note a = standings_query_props [OF assms(1,2)]
  note b = standings_query_props [OF d']
  have strict: "\<And>xs. sorted_wrt (\<lambda>a b. snd b < snd a \<or> (snd a = snd b \<and> fst a < fst b)) xs \<Longrightarrow>
      sorted_wrt (<) (map standings_key xs)"
    by (simp add: sorted_wrt_map standings_key_less)
  have "set (map standings_key (standings_query d')) = set (map standings_key (standings_query d))"
    by (simp only: set_map a(1) b(1) standings_rows_perm [OF assms(3,4)])
  with strict [OF a(3)] strict [OF b(3)]
  have "map standings_key (standings_query d') = map standings_key (standings_query d)"
    by (intro strict_sorted_equal)
  then show ?thesis
    using inj_standings_key by (simp add: inj_map_eq_map)
qed

lemma read_standings_eq: "read_standings d = (Inr (standings_query d), d)"
  by (simp add: read_standings_def read_standings_body_def get_db_def close_def)

text \<open>
  C3. In every reachable state \<^verbatim>\<open>read_standings\<close> returns exactly one row for each
  player that has at least one stored result (so a player whose results sum to zero is
  listed, a player without results is not), the row pairing the player's name with the
  sum of the points of all the player's results; the rows are in descending order of
  total with ties in ascending order of name, and the answer is the same for every
  storage order of the two tables. The stored state is returned unchanged.
\<close>

theorem read_standings_order:
  assumes "reachable d"
  shows "read_standings d = (Inr (standings_query d), d) \<and>
    set (standings_query d) =
      {(p_name p, total_points d p) |p. p \<in> set (players d) \<and> has_result d p} \<and>
    distinct (map fst (standings_query d)) \<and>
    sorted_wrt (\<lambda>a b. snd b < snd a \<or> (snd a = snd b \<and> fst a < fst b)) (standings_query d) \<and>
    (\<forall>d'. mset (players d') = mset (players d) \<and> mset (results d') = mset (results d) \<longrightarrow>
       standings_query d' = standings_query d)"
proof -
  from assms have "db_inv d" by (rule reachable_db_inv)
  then have k: "distinct (map p_id (players d))" "distinct (map p_name (players d))"
    by (simp_all add: db_inv_def)
  note q = standings_query_props [OF k]
  have rows: "set (standings_query d) =
      {(p_name p, total_points d p) |p. p \<in> set (players d) \<and> has_result d p}"
    by (simp only: q(1) standings_rows_def)
  have perm: "\<forall>d'. mset (players d') = mset (players d) \<and> mset (results d') = mset (results d) \<longrightarrow>
       standings_query d' = standings_query d"
    by (intro allI impI, elim conjE) (rule standings_query_perm [OF k])
  from read_standings_eq rows q(2) q(3) perm show ?thesis by (intro conjI)
qed


lemma season_db_uploads:
  "snd (upload_results ''B'' ''2024-06-01''
      [\<lparr>col_player = ''Zed'', col_position = ''2''\<rparr>,
       \<lparr>col_player = ''Eve'', col_position = ''x''\<rparr>]
      (snd (upload_results ''A'' ''2024-05-01''
         [\<lparr>col_player = ''Bob'', col_position = ''1''\<rparr>,
          \<lparr>col_player = ''Carol'', col_position = ''2''\<rparr>,
          \<lparr>col_player = ''Alice'', col_position = ''1''\<rparr>,
          \<lparr>col_player = ''Dave'', col_position = ''11''\<rparr>] empty_db))) = season_db"
proof -
  have first: "snd (upload_results ''A'' ''2024-05-01''
         [\<lparr>col_player = ''Bob'', col_position = ''1''\<rparr>,
          \<lparr>col_player = ''Carol'', col_position = ''2''\<rparr>,
          \<lparr>col_player = ''Alice'', col_position = ''1''\<rparr>,
          \<lparr>col_player = ''Dave'', col_position = ''11''\<rparr>] empty_db) =
     \<lparr>players =
        [\<lparr>p_id = 1, p_name = ''Bob''\<rparr>, \<lparr>p_id = 2, p_name = ''Carol''\<rparr>,
         \<lparr>p_id = 3, p_name = ''Alice''\<rparr>, \<lparr>p_id = 4, p_name = ''Dave''\<rparr>],
      events =
        [\<lparr>e_id = 1, e_name = ''A'', event_date = Date 2024 5 1, start_time = None,
           location = None, format = None, registration_url = None, description = None\<rparr>],
      results =
        [\<lparr>r_id = 1, event_id = 1, player_id = 1, position = 1, points = 25\<rparr>,
         \<lparr>r_id = 2, event_id = 1, player_id = 2, position = 2, points = 18\<rparr>,
         \<lparr>r_id = 3, event_id = 1, player_id = 3, position = 1, points = 25\<rparr>,
         \<lparr>r_id = 4, event_id = 1, player_id = 4, position = 11, points = 0\<rparr>]\<rparr>"
    by code_simp
  show ?thesis unfolding first season_db_def by code_simp
qed

lemma season_db_reachable: "reachable season_db"
  unfolding season_db_uploads [symmetric]
  by (intro after_upload_results initial)

lemma season_db_standings:
  "standings_query season_db = [(''Alice'', 25), (''Bob'', 25), (''Carol'', 18), (''Dave'', 0)]"
  unfolding season_db_def by code_simp

theorem read_standings_order_witness:
  "reachable season_db \<and>
   read_standings season_db =
     (Inr [(''Alice'', 25), (''Bob'', 25), (''Carol'', 18), (''Dave'', 0)], season_db) \<and>
   sorted_wrt (\<lambda>a b. snd b < snd a \<or> (snd a = snd b \<and> fst a < fst b))
     [(''Alice'', 25), (''Bob'', 25), (''Carol'', 18), (''Dave'', 0::int)]"
  using read_standings_order [OF season_db_reachable] season_db_reachable
  by (simp only: season_db_standings simp_thms)

subsection \<open>Find or create\<close>

lemma commit_add_event_sess:
  assumes "sess_inv s"
    and "commit (add (New_Event n dt st loc fmt url descr) s) = (None, s1)"
  shows "sess_inv s1" "new s1 = []"
    "events (stored s1) =
       events (stored s) @
       [\<lparr>e_id = next_id (map e_id (events (stored s))), e_name = n, event_date = dt,
         start_time = st, location = loc, format = fmt, registration_url = url,
         description = descr\<rparr>]"
    "players (stored s1) = players (stored s)"
proof -
  let ?row = "New_Event n dt st loc fmt url descr"
  from assms(2) have s1: "s1 = \<lparr>stored = flush_row ?row (fold flush_row (new s) (stored s)), new = []\<rparr>"
    by (auto simp: commit_def add_def split: if_splits)
  have fl: "db_inv (fold flush_row (new s) (stored s))"
    "players (fold flush_row (new s) (stored s)) = players (stored s)"
    "events (fold flush_row (new s) (stored s)) = events (stored s)"
    using assms(1) fold_flush_results [of "stored s" "new s"] by (auto simp: sess_inv_def)
  have "db_inv (flush_row ?row (fold flush_row (new s) (stored s)))"
    by (rule flush_event_inv [OF fl(1)])
  then show "sess_inv s1" by (simp add: s1 sess_inv_def)
  show "new s1 = []" by (simp add: s1)
  show "events (stored s1) =
       events (stored s) @
       [\<lparr>e_id = next_id (map e_id (events (stored s))), e_name = n, event_date = dt,
         start_time = st, location = loc, format = fmt, registration_url = url,
         description = descr\<rparr>]"
    by (simp add: s1 fl(3))
  show "players (stored s1) = players (stored s)" by (simp add: s1 fl(2))
qed

lemma find_SomeD: "find P xs = Some x \<Longrightarrow> x \<in> set xs \<and> P x"
  by (induction xs) (auto split: if_splits)

lemma new_SessionLocal [simp]: "new (SessionLocal d) = []"
  by (simp add: SessionLocal_def)

lemma find_filter_None: "find P xs = None \<Longrightarrow> filter P xs = []"
  by (auto simp: find_None_iff filter_empty_conv)

lemma find_append_new: "find P xs = None \<Longrightarrow> P x \<Longrightarrow> find P (xs @ [x]) = Some x"
  by (induction xs) (auto split: if_splits)

lemma find_filter_one:
  "find P xs = Some x \<Longrightarrow> length (filter P xs) \<le> 1 \<Longrightarrow> length (filter P xs) = 1"
  by (induction xs) (auto split: if_splits)

lemma find_player_distinct:
  "distinct (map p_name ps) \<Longrightarrow> p \<in> set ps \<Longrightarrow> find (\<lambda>q. p_name q = p_name p) ps = Some p"
  by (induction ps) (auto simp: rev_image_eqI)

lemma filter_name_distinct:
  "distinct (map p_name ps) \<Longrightarrow> p \<in> set ps \<Longrightarrow>
   length (filter (\<lambda>q. p_name q = p_name p) ps) = 1"
proof (induction ps)
  case Nil
  then show ?case by simp
next
  case (Cons q ps)
  show ?case
  proof (cases "q = p")
    case True
    with Cons.prems have "p_name p \<notin> p_name ` set ps" by simp
    then have "\<forall>x \<in> set ps. p_name x \<noteq> p_name p" by (metis imageI)
    then have "filter (\<lambda>q. p_name q = p_name p) ps = []" by simp
    with True show ?thesis by simp
  next
    case False
    with Cons.prems have "p \<in> set ps" "p_name q \<noteq> p_name p" by force+
    with Cons show ?thesis by simp
  qed
qed

lemma resolve_player_again:
  assumes "sess_inv s" "resolve_player n s = (Inr p, s1)"
  shows "resolve_player n s1 = (Inr p, s1)"
    and "resolve_player n (SessionLocal (stored s1)) = (Inr p, SessionLocal (stored s1))"
    and "length (filter (\<lambda>q. p_name q = n) (players (stored s1))) = 1"
proof -
  from resolve_player_inv [OF assms(1), of n] assms(2)
  have s1: "sess_inv s1" "p \<in> set (players (stored s1))" "p_name p = n" by simp_all
  from s1(1) have dn: "distinct (map p_name (players (stored s1)))"
    by (simp add: sess_inv_def db_inv_def)
  from find_player_distinct [OF dn s1(2)] s1(3)
  have f: "find (\<lambda>q. p_name q = n) (players (stored s1)) = Some p" by simp
  then show "resolve_player n s1 = (Inr p, s1)" by (simp add: resolve_player_def)
  from f show "resolve_player n (SessionLocal (stored s1)) = (Inr p, SessionLocal (stored s1))"
    by (simp add: resolve_player_def)
  from filter_name_distinct [OF dn s1(2)] s1(3)
  show "length (filter (\<lambda>q. p_name q = n) (players (stored s1))) = 1" by simp
qed

lemma resolve_player_repeat:
  assumes "resolve_player n s1 = (Inr p, s1)"
  shows "((\<lambda>t. snd (resolve_player n t)) ^^ k) s1 = s1"
  using assms by (induction k) simp_all

lemma resolve_event_again:
  assumes "sess_inv s" "resolve_event n dt s = (Inr e, s1)"
  shows "resolve_event n dt s1 = (Inr e, s1)"
    and "length (filter (same_identity n dt) (events (stored s1))) =
         max 1 (length (filter (same_identity n dt) (events (stored s))))"
proof -
  have P: "(\<lambda>e. e_name e = n \<and> event_date e = dt) = same_identity n dt"
    by (simp add: same_identity_def fun_eq_iff)
  show "resolve_event n dt s1 = (Inr e, s1)"
    and "length (filter (same_identity n dt) (events (stored s1))) =
         max 1 (length (filter (same_identity n dt) (events (stored s))))"
  proof (atomize (full), cases "find (same_identity n dt) (events (stored s))")
    case (Some e')
    with assms(2) have "e' = e" "s1 = s" by (simp_all add: resolve_event_def P)
    moreover from Some have "filter (same_identity n dt) (events (stored s)) \<noteq> []"
      using find_SomeD [OF Some] by (auto simp: filter_empty_conv)
    then have "1 \<le> length (filter (same_identity n dt) (events (stored s)))"
      by (simp add: Suc_le_eq)
    ultimately show "resolve_event n dt s1 = (Inr e, s1) \<and>
        length (filter (same_identity n dt) (events (stored s1))) =
         max 1 (length (filter (same_identity n dt) (events (stored s))))"
      using Some by (simp add: resolve_event_def P max_def)
  next
    case None
    let ?row = "New_Event n dt None None None None None"
    obtain r s' where c: "commit (add ?row s) = (r, s')" by force
    with None assms(2) have r: "r = None" and s': "s' = s1" and e: "e = refresh_event s1"
      by (auto simp: resolve_event_def P split: option.splits)
    note ca = commit_add_event_sess [OF assms(1) c [unfolded r s']]
    let ?new = "\<lparr>e_id = next_id (map e_id (events (stored s))), e_name = n, event_date = dt,
         start_time = None, location = None, format = None, registration_url = None,
         description = None\<rparr>"
    have e': "e = ?new" by (simp add: e refresh_event_def ca(3))
    have id: "same_identity n dt ?new" by (simp add: same_identity_def)
    have "find (same_identity n dt) (events (stored s1)) = Some e"
      unfolding ca(3) e' by (rule find_append_new [OF None id])
    moreover have "filter (same_identity n dt) (events (stored s1)) = [?new]"
      unfolding ca(3) using find_filter_None [OF None] id by simp
    ultimately show "resolve_event n dt s1 = (Inr e, s1) \<and>
        length (filter (same_identity n dt) (events (stored s1))) =
         max 1 (length (filter (same_identity n dt) (events (stored s))))"
      using find_filter_None [OF None] by (simp add: resolve_event_def P)
  qed
qed

lemma upload_results_resolves_event:
  assumes "parse_event_date date_text = Inr dt"
  shows "snd (upload_results n date_text [] d) = stored (snd (resolve_event n dt (SessionLocal d)))"
proof (cases "find (\<lambda>e. e_name e = n \<and> event_date e = dt) (events d)")
  case None
  then show ?thesis
    by (simp add: upload_results_created [OF assms None] resolve_event_def commit_add_event
        event_created_def commit_def)
next
  case (Some e)
  then show ?thesis
    by (simp add: upload_results_found [OF assms Some] resolve_event_def)
qed

lemma sess_inv_SessionLocal: "db_inv d \<Longrightarrow> sess_inv (SessionLocal d)"
  by (simp add: sess_inv_def SessionLocal_def)

text \<open>
  C6, as amended. In a session as the handlers have it (stored tables within their
  constraints, only results pending), a successful find-or-create of an event returns,
  when repeated, the same event and leaves the session as it is; exactly one event row
  has the identity afterwards provided at most one had it before. A successful
  find-or-create of a player returns the same player when repeated any number of
  times, in the same session or in a later one, and leaves exactly one player row with
  that name.
\<close>

theorem find_or_create_idempotent:
  assumes "sess_inv s"
  shows "(\<forall>e s1. resolve_event n dt s = (Inr e, s1) \<longrightarrow>
            resolve_event n dt s1 = (Inr e, s1) \<and>
            (length (filter (same_identity n dt) (events (stored s))) \<le> 1 \<longrightarrow>
             length (filter (same_identity n dt) (events (stored s1))) = 1)) \<and>
         (\<forall>p s1. resolve_player name s = (Inr p, s1) \<longrightarrow>
            resolve_player name s1 = (Inr p, s1) \<and>
            (\<forall>k. ((\<lambda>t. snd (resolve_player name t)) ^^ k) s1 = s1) \<and>
            resolve_player name (SessionLocal (stored s1)) = (Inr p, SessionLocal (stored s1)) \<and>
            length (filter (\<lambda>q. p_name q = name) (players (stored s1))) = 1)"
proof (intro conjI allI impI)
  fix e s1 assume r: "resolve_event n dt s = (Inr e, s1)"
  show "resolve_event n dt s1 = (Inr e, s1)" by (rule resolve_event_again [OF assms r])
  assume "length (filter (same_identity n dt) (events (stored s))) \<le> 1"
  with resolve_event_again(2) [OF assms r]
  show "length (filter (same_identity n dt) (events (stored s1))) = 1" by simp
next
  fix p s1 assume r: "resolve_player name s = (Inr p, s1)"
  note again = resolve_player_again [OF assms r]
  show "resolve_player name s1 = (Inr p, s1)" by (rule again(1))
  show "resolve_player name (SessionLocal (stored s1)) = (Inr p, SessionLocal (stored s1))"
    by (rule again(2))
  show "length (filter (\<lambda>q. p_name q = name) (players (stored s1))) = 1" by (rule again(3))
  fix k show "((\<lambda>t. snd (resolve_player name t)) ^^ k) s1 = s1"
    by (rule resolve_player_repeat [OF again(1)])
qed

theorem find_or_create_idempotent_witness:
  "sess_inv (SessionLocal empty_db) \<and>
   resolve_event ''Cup'' (Date 2024 5 1) (SessionLocal empty_db) =
     (Inr \<lparr>e_id = 1, e_name = ''Cup'', event_date = Date 2024 5 1, start_time = None,
           location = None, format = None, registration_url = None, description = None\<rparr>,
      \<lparr>stored = \<lparr>players = [], events =
          [\<lparr>e_id = 1, e_name = ''Cup'', event_date = Date 2024 5 1, start_time = None,
            location = None, format = None, registration_url = None, description = None\<rparr>],
          results = []\<rparr>, new = []\<rparr>) \<and>
   resolve_event ''Cup'' (Date 2024 5 1)
      \<lparr>stored = \<lparr>players = [], events =
          [\<lparr>e_id = 1, e_name = ''Cup'', event_date = Date 2024 5 1, start_time = None,
            location = None, format = None, registration_url = None, description = None\<rparr>],
          results = []\<rparr>, new = []\<rparr> =
     (Inr \<lparr>e_id = 1, e_name = ''Cup'', event_date = Date 2024 5 1, start_time = None,
           location = None, format = None, registration_url = None, description = None\<rparr>,
      \<lparr>stored = \<lparr>players = [], events =
          [\<lparr>e_id = 1, e_name = ''Cup'', event_date = Date 2024 5 1, start_time = None,
            location = None, format = None, registration_url = None, description = None\<rparr>],
          results = []\<rparr>, new = []\<rparr>) \<and>
   resolve_player ''Alice'' (SessionLocal empty_db) =
     (Inr \<lparr>p_id = 1, p_name = ''Alice''\<rparr>,
      \<lparr>stored = \<lparr>players = [\<lparr>p_id = 1, p_name = ''Alice''\<rparr>], events = [], results = []\<rparr>,
       new = []\<rparr>) \<and>
   resolve_player ''Alice''
      \<lparr>stored = \<lparr>players = [\<lparr>p_id = 1, p_name = ''Alice''\<rparr>], events = [], results = []\<rparr>,
       new = []\<rparr> =
     (Inr \<lparr>p_id = 1, p_name = ''Alice''\<rparr>,
      \<lparr>stored = \<lparr>players = [\<lparr>p_id = 1, p_name = ''Alice''\<rparr>], events = [], results = []\<rparr>,
       new = []\<rparr>)"
proof -
  have inv: "sess_inv (SessionLocal empty_db)"
    by (rule sess_inv_SessionLocal [OF db_inv_empty])
  have ev: "resolve_event ''Cup'' (Date 2024 5 1) (SessionLocal empty_db) =
     (Inr \<lparr>e_id = 1, e_name = ''Cup'', event_date = Date 2024 5 1, start_time = None,
           location = None, format = None, registration_url = None, description = None\<rparr>,
      \<lparr>stored = \<lparr>players = [], events =
          [\<lparr>e_id = 1, e_name = ''Cup'', event_date = Date 2024 5 1, start_time = None,
            location = None, format = None, registration_url = None, description = None\<rparr>],
          results = []\<rparr>, new = []\<rparr>)"
    by code_simp
  have pl: "resolve_player ''Alice'' (SessionLocal empty_db) =
     (Inr \<lparr>p_id = 1, p_name = ''Alice''\<rparr>,
      \<lparr>stored = \<lparr>players = [\<lparr>p_id = 1, p_name = ''Alice''\<rparr>], events = [], results = []\<rparr>,
       new = []\<rparr>)"
    by code_simp
  from find_or_create_idempotent [OF inv, of "''Cup''" "Date 2024 5 1" "''Alice''"] ev pl inv
  show ?thesis by blast
qed

text \<open>
  C6 as stated fails where \<^verbatim>\<open>create_event\<close> has inserted the same name and date twice:
  both resolutions return the event with id 1, and two rows with the identity remain.
\<close>

theorem resolve_event_duplicates_counterexample:
  "fst (resolve_event ''Cup'' (Date 2024 5 1)
      (SessionLocal (snd (create_event ''Cup'' ''2024-05-01'' None None None None None
         (snd (create_event ''Cup'' ''2024-05-01'' None None None None None empty_db)))))) =
     Inr \<lparr>e_id = 1, e_name = ''Cup'', event_date = Date 2024 5 1, start_time = None,
           location = None, format = None, registration_url = None, description = None\<rparr> \<and>
   fst (resolve_event ''Cup'' (Date 2024 5 1)
      (snd (resolve_event ''Cup'' (Date 2024 5 1)
        (SessionLocal (snd (create_event ''Cup'' ''2024-05-01'' None None None None None
          (snd (create_event ''Cup'' ''2024-05-01'' None None None None None empty_db)))))))) =
     Inr \<lparr>e_id = 1, e_name = ''Cup'', event_date = Date 2024 5 1, start_time = None,
           location = None, format = None, registration_url = None, description = None\<rparr> \<and>
   length (filter (same_identity ''Cup'' (Date 2024 5 1))
     (events (stored (snd (resolve_event ''Cup'' (Date 2024 5 1)
       (snd (resolve_event ''Cup'' (Date 2024 5 1)
         (SessionLocal (snd (create_event ''Cup'' ''2024-05-01'' None None None None None
           (snd (create_event ''Cup'' ''2024-05-01'' None None None None None
              empty_db)))))))))))) = 2"
proof -
  let ?e1 = "\<lparr>e_id = 1, e_name = ''Cup'', event_date = Date 2024 5 1, start_time = None,
           location = None, format = None, registration_url = None, description = None\<rparr>"
  let ?e2 = "\<lparr>e_id = 2, e_name = ''Cup'', event_date = Date 2024 5 1, start_time = None,
           location = None, format = None, registration_url = None, description = None\<rparr>"
  let ?d = "\<lparr>players = [], events = [?e1, ?e2], results = []\<rparr>"
  have d: "snd (create_event ''Cup'' ''2024-05-01'' None None None None None
         (snd (create_event ''Cup'' ''2024-05-01'' None None None None None empty_db))) = ?d"
    by code_simp
  have r: "resolve_event ''Cup'' (Date 2024 5 1) (SessionLocal ?d) = (Inr ?e1, SessionLocal ?d)"
    by code_simp
  have r': "resolve_event ''Cup'' (Date 2024 5 1) \<lparr>stored = ?d, new = []\<rparr> =
      (Inr ?e1, \<lparr>stored = ?d, new = []\<rparr>)"
    using r by (simp add: SessionLocal_def)
  show ?thesis
    by (simp add: d SessionLocal_def r' same_identity_def)
qed

subsection \<open>Uploads for a new event\<close>

lemma upload_rows_append:
  "upload_rows event (xs @ ys) s =
     (case upload_rows event xs s of
        (Some err, s1) \<Rightarrow> (Some err, s1)
      | (None, s1) \<Rightarrow> upload_rows event ys s1)"
  by (induction xs arbitrary: s) (auto split: option.splits sum.splits prod.splits)

lemma upload_rows_unparsed:
  "py_int (col_position row) = None \<Longrightarrow> upload_rows event (row # rows) s = (Some ValueError, s)"
  by simp

lemma fold_flush_results_prefix:
  "\<forall>x \<in> set xs. pending_ok d x \<Longrightarrow> prefix (results d) (results (fold flush_row xs d))"
proof (induction xs arbitrary: d)
  case Nil
  then show ?case by simp
next
  case (Cons x xs)
  then obtain ev pl pos pts where x: "x = New_Result ev pl pos pts"
    by (cases x) auto
  have "\<forall>y \<in> set xs. pending_ok (flush_row x d) y"
    using Cons.prems by (auto simp: x intro: pending_ok_mono)
  from Cons.IH [OF this] have "prefix (results (flush_row x d)) (results (fold flush_row (x # xs) d))"
    by simp
  moreover have "prefix (results d) (results (flush_row x d))" by (simp add: x)
  ultimately show ?case by (rule prefix_order.trans [rotated])
qed

lemma commit_prefix:
  assumes "sess_inv s"
  shows "prefix (results (stored s)) (results (stored (snd (commit s))))"
  using assms fold_flush_results_prefix [of "new s" "stored s"]
  by (auto simp: commit_def sess_inv_def)

lemma resolve_player_grows:
  assumes "sess_inv s"
  shows "prefix (players (stored s)) (players (stored (snd (resolve_player n s))))"
    and "prefix (results (stored s)) (results (stored (snd (resolve_player n s))))"
    and "events (stored (snd (resolve_player n s))) = events (stored s)"
proof -
  show "prefix (players (stored s)) (players (stored (snd (resolve_player n s))))"
    and "prefix (results (stored s)) (results (stored (snd (resolve_player n s))))"
    and "events (stored (snd (resolve_player n s))) = events (stored s)"
  proof (atomize (full), cases "find (\<lambda>p. p_name p = n) (players (stored s))")
    case (Some p)
    then show "prefix (players (stored s)) (players (stored (snd (resolve_player n s)))) \<and>
      prefix (results (stored s)) (results (stored (snd (resolve_player n s)))) \<and>
      events (stored (snd (resolve_player n s))) = events (stored s)"
      by (simp add: resolve_player_def)
  next
    case None
    then have fresh: "n \<notin> p_name ` set (players (stored s))" by (simp add: find_player_None)
    obtain r s1 where c: "commit (add (New_Player n) s) = (r, s1)" by force
    show "prefix (players (stored s)) (players (stored (snd (resolve_player n s)))) \<and>
      prefix (results (stored s)) (results (stored (snd (resolve_player n s)))) \<and>
      events (stored (snd (resolve_player n s))) = events (stored s)"
    proof (cases r)
      case (Some err)
      with c have "s1 = add (New_Player n) s" by (auto dest: commit_Some_same)
      with None c Some show ?thesis by (simp add: resolve_player_def)
    next
      case None': None
      note ca = commit_add_player [OF assms fresh c [unfolded None']]
      from c None' have "stored s1 =
          flush_row (New_Player n) (fold flush_row (new s) (stored s))"
        by (auto simp: commit_def add_def split: if_splits)
      then have "results (stored s1) = results (fold flush_row (new s) (stored s))" by simp
      moreover have "prefix (results (stored s)) (results (fold flush_row (new s) (stored s)))"
        using assms by (intro fold_flush_results_prefix) (simp add: sess_inv_def)
      ultimately show ?thesis
        using None c None' ca by (simp add: resolve_player_def)
    qed
  qed
qed

lemma upload_rows_grows:
  "sess_inv s \<Longrightarrow> e_id event \<in> e_id ` set (events (stored s)) \<Longrightarrow>
   prefix (players (stored s)) (players (stored (snd (upload_rows event rows s)))) \<and>
   prefix (results (stored s)) (results (stored (snd (upload_rows event rows s)))) \<and>
   events (stored (snd (upload_rows event rows s))) = events (stored s)"
proof (induction rows arbitrary: s)
  case Nil
  then show ?case by simp
next
  case (Cons row rows)
  show ?case
  proof (cases "py_int (col_position row)")
    case None
    then show ?thesis by simp
  next
    case (Some pos)
    obtain r s1 where rp: "resolve_player (strip (col_player row)) s = (r, s1)" by force
    note inv = resolve_player_inv [OF Cons.prems(1), of "strip (col_player row)", unfolded rp]
    note gr = resolve_player_grows [OF Cons.prems(1), of "strip (col_player row)", unfolded rp]
    show ?thesis
    proof (cases r)
      case (Inl err)
      with gr Some rp show ?thesis by simp
    next
      case (Inr p)
      with inv have s1: "sess_inv s1" "p \<in> set (players (stored s1))"
        "events (stored s1) = events (stored s)" by simp_all
      let ?s2 = "add (New_Result (e_id event) (p_id p) pos (points_for pos)) s1"
      have "sess_inv ?s2"
        using s1 Cons.prems(2) by (auto simp: sess_inv_def)
      moreover have "e_id event \<in> e_id ` set (events (stored ?s2))"
        using s1(3) Cons.prems(2) by simp
      ultimately have ih: "prefix (players (stored ?s2)) (players (stored (snd (upload_rows event rows ?s2)))) \<and>
         prefix (results (stored ?s2)) (results (stored (snd (upload_rows event rows ?s2)))) \<and>
         events (stored (snd (upload_rows event rows ?s2))) = events (stored ?s2)"
        by (rule Cons.IH)
      have step: "upload_rows event (row # rows) s = upload_rows event rows ?s2"
        using Some rp Inr by simp
      from ih gr show ?thesis
        unfolding step by (auto simp: s1(3) intro: prefix_order.trans)
    qed
  qed
qed


lemma flush_row_data:
  "map result_data (results (flush_row x d)) = map result_data (results d) @ pending_data x"
  by (cases x) (simp_all add: result_data_def)

lemma fold_flush_data:
  "map result_data (results (fold flush_row xs d)) =
     map result_data (results d) @ concat (map pending_data xs)"
  by (induction xs arbitrary: d) (simp_all add: flush_row_data)

lemma commit_ledger:
  "commit s = (None, s1) \<Longrightarrow> ledger s1 = ledger s \<and> new s1 = []"
  by (auto simp: commit_def ledger_def fold_flush_data split: if_splits)

lemma commit_storable:
  "list_all storable (new s) \<Longrightarrow> \<exists>s1. commit s = (None, s1)"
  by (simp add: commit_def)

lemma resolve_player_success:
  assumes "sess_inv s" "list_all storable (new s)"
  shows "\<exists>p s1. resolve_player n s = (Inr p, s1) \<and> sess_inv s1 \<and> list_all storable (new s1) \<and>
     p \<in> set (players (stored s1)) \<and> p_name p = n \<and> ledger s1 = ledger s \<and>
     events (stored s1) = events (stored s)"
proof (cases "find (\<lambda>p. p_name p = n) (players (stored s))")
  case (Some p)
  with assms show ?thesis
    by (auto simp: resolve_player_def dest: find_player_name)
next
  case None
  then have fresh: "n \<notin> p_name ` set (players (stored s))" by (simp add: find_player_None)
  from assms(2) have "list_all storable (new (add (New_Player n) s))" by simp
  from commit_storable [OF this] obtain s1 where c: "commit (add (New_Player n) s) = (None, s1)" ..
  note ca = commit_add_player [OF assms(1) fresh c]
  have "ledger (add (New_Player n) s) = ledger s" by (simp add: ledger_def)
  with commit_ledger [OF c] have "ledger s1 = ledger s" by simp
  with None c ca show ?thesis
    by (simp add: resolve_player_def refresh_player_def)
qed

lemma row_result_mono:
  "row_result event d row t \<Longrightarrow> set (players d) \<subseteq> set (players d') \<Longrightarrow>
   row_result event d' row t"
  by (auto simp: row_result_def)

lemma upload_rows_success:
  "sess_inv s \<Longrightarrow> list_all storable (new s) \<Longrightarrow>
   e_id event \<in> e_id ` set (events (stored s)) \<Longrightarrow> \<forall>row \<in> set rows. well_formed row \<Longrightarrow>
   \<exists>s1 added. upload_rows event rows s = (None, s1) \<and> sess_inv s1 \<and>
     list_all storable (new s1) \<and> ledger s1 = ledger s @ added \<and>
     list_all2 (row_result event (stored s1)) rows added"
proof (induction rows arbitrary: s)
  case Nil
  then show ?case by simp
next
  case (Cons row rows)
  from Cons.prems(4) obtain pos where pos: "py_int (col_position row) = Some pos" "fits_int64 pos"
    by (auto simp: well_formed_def split: option.splits)
  let ?n = "strip (col_player row)"
  from resolve_player_success [OF Cons.prems(1,2), of ?n]
  obtain p s1 where rp: "resolve_player ?n s = (Inr p, s1)" and s1: "sess_inv s1"
    "list_all storable (new s1)" "p \<in> set (players (stored s1))" "p_name p = ?n"
    "ledger s1 = ledger s" "events (stored s1) = events (stored s)"
    by blast
  let ?t = "(e_id event, p_id p, pos, points_for pos)"
  let ?s2 = "add (New_Result (e_id event) (p_id p) pos (points_for pos)) s1"
  have inv2: "sess_inv ?s2" using s1 Cons.prems(3) by (auto simp: sess_inv_def)
  have st2: "list_all storable (new ?s2)" using s1(2) pos(2) by simp
  have ev2: "e_id event \<in> e_id ` set (events (stored ?s2))" using s1(6) Cons.prems(3) by simp
  have wf: "\<forall>row \<in> set rows. well_formed row" using Cons.prems(4) by simp
  have l2: "ledger ?s2 = ledger s @ [?t]" using s1(5) by (simp add: ledger_def)
  from Cons.IH [OF inv2 st2 ev2 wf] obtain s3 added
    where ih: "upload_rows event rows ?s2 = (None, s3)" "sess_inv s3"
      "list_all storable (new s3)" "ledger s3 = ledger ?s2 @ added"
      "list_all2 (row_result event (stored s3)) rows added"
    by blast
  have step: "upload_rows event (row # rows) s = upload_rows event rows ?s2"
    using pos(1) rp by simp
  have "prefix (players (stored ?s2)) (players (stored (snd (upload_rows event rows ?s2))))"
    using upload_rows_grows [OF inv2 ev2] by blast
  then have "set (players (stored s1)) \<subseteq> set (players (stored s3))"
    by (simp add: ih(1) set_mono_prefix)
  with s1(3) have "p \<in> set (players (stored s3))" by blast
  then have "row_result event (stored s3) row ?t"
    using s1(4) pos(1) by (auto simp: row_result_def)
  with ih(5) have all2: "list_all2 (row_result event (stored s3)) (row # rows) (?t # added)"
    by simp
  have led: "ledger s3 = ledger s @ (?t # added)" by (simp add: ih(4) l2)
  show ?case
    by (rule exI [of _ s3], rule exI [of _ "?t # added"])
      (simp only: step ih(1,2,3) all2 led simp_thms)
qed


lemma event_created_props:
  "stored (event_created n dt d) = d\<lparr>events := events d @ [created_event n dt d]\<rparr>"
  "new (event_created n dt d) = []"
  "refresh_event (event_created n dt d) = created_event n dt d"
  by (simp_all add: event_created_def created_event_def refresh_event_def)

lemma event_created_inv:
  assumes "db_inv d"
  shows "sess_inv (event_created n dt d)"
    and "e_id (refresh_event (event_created n dt d)) \<in>
         e_id ` set (events (stored (event_created n dt d)))"
  using sess_inv_event_created [OF assms, of n dt None None None None None]
  by (simp_all add: event_created_def refresh_event_def)

lemma find_event_None:
  "find (\<lambda>e. e_name e = n \<and> event_date e = dt) es = None \<longleftrightarrow>
   \<not> (\<exists>e \<in> set es. same_identity n dt e)"
  by (auto simp: find_None_iff same_identity_def)

text \<open>
  When the event is new and every row is well formed, the upload succeeds and appends
  one result for each row, in order, with the new event, the player of that name, the
  parsed position and \<open>points_for\<close> of it.
\<close>

lemma upload_results_new_event_success:
  assumes "db_inv d" "parse_event_date date_text = Inr dt"
    and "\<not> (\<exists>e \<in> set (events d). same_identity n dt e)"
    and "\<forall>row \<in> set rows. well_formed row"
  shows "\<exists>d' added. upload_results n date_text rows d = (Inr (RedirectResponse Root 303), d') \<and>
     events d' = events d @ [created_event n dt d] \<and>
     map result_data (results d') = map result_data (results d) @ added \<and>
     list_all2 (row_result (created_event n dt d) d') rows added"
proof -
  let ?s0 = "event_created n dt d"
  let ?ev = "created_event n dt d"
  from assms(3) have none: "find (\<lambda>e. e_name e = n \<and> event_date e = dt) (events d) = None"
    by (simp add: find_event_None)
  note body = upload_results_created [OF assms(2) none, of rows, unfolded event_created_props(3)]
  note s0 = event_created_inv [OF assms(1), of n dt, unfolded event_created_props(3)]
  have st0: "list_all storable (new ?s0)" by (simp add: event_created_props)
  from upload_rows_success [OF s0(1) st0 s0(2) assms(4)] obtain s1 added
    where ur: "upload_rows ?ev rows ?s0 = (None, s1)" and s1: "sess_inv s1"
      "list_all storable (new s1)" "ledger s1 = ledger ?s0 @ added"
      "list_all2 (row_result ?ev (stored s1)) rows added"
    by blast
  from commit_storable [OF s1(2)] obtain s2 where c: "commit s1 = (None, s2)" ..
  from commit_ledger [OF c] have l2: "ledger s2 = ledger s1" "new s2 = []" by simp_all
  have p2: "players (stored s2) = players (stored s1)" "events (stored s2) = events (stored s1)"
    using commit_results_inv(3,4) [OF s1(1)] c by simp_all
  have ev1: "events (stored s1) = events (stored ?s0)"
    using upload_rows_grows [OF s0(1) s0(2), of rows] ur by simp
  have res: "upload_results n date_text rows d = (Inr (RedirectResponse Root 303), stored s2)"
    by (simp add: body ur c)
  have "map result_data (results (stored s2)) = ledger s2" by (simp add: ledger_def l2(2))
  also have "\<dots> = map result_data (results d) @ added"
    by (simp add: l2(1) s1(3)) (simp add: ledger_def event_created_props)
  finally have led: "map result_data (results (stored s2)) = map result_data (results d) @ added" .
  have all2: "list_all2 (row_result ?ev (stored s2)) rows added"
    using s1(4) by (rule list_all2_mono) (auto intro: row_result_mono simp: p2(1))
  have evs: "events (stored s2) = events d @ [?ev]"
    by (simp add: p2(2) ev1 event_created_props)
  show ?thesis
    by (rule exI [of _ "stored s2"], rule exI [of _ added])
      (simp only: res evs led all2 simp_thms)
qed


lemma list_all2_row:
  "list_all2 R rows added \<Longrightarrow> row \<in> set rows \<Longrightarrow> \<exists>t \<in> set added. R row t"
  by (induction rule: list_all2_induct) auto

text \<open>
  C5, as amended. A row whose player name is empty after trimming is not rejected, and
  there is no malformed-input error: for a new event and a batch of well-formed rows
  the upload succeeds, a player with the empty name exists afterwards and holds a
  result of the new event, and one result has been added for every row.
\<close>

theorem upload_results_blank_player_accepted:
  assumes "reachable d" and "parse_event_date date_text = Inr dt"
    and "\<not> (\<exists>e \<in> set (events d). same_identity n dt e)"
    and "\<forall>row \<in> set rows. well_formed row"
    and "row \<in> set rows" and "strip (col_player row) = []"
  shows "fst (upload_results n date_text rows d) = Inr (RedirectResponse Root 303) \<and>
    (\<exists>p \<in> set (players (snd (upload_results n date_text rows d))). p_name p = [] \<and>
       (\<exists>r \<in> set (results (snd (upload_results n date_text rows d))).
          player_id r = p_id p \<and> event_id r = e_id (created_event n dt d))) \<and>
    length (results (snd (upload_results n date_text rows d))) =
      length (results d) + length rows"
proof -
  from assms(1) have inv: "db_inv d" by (rule reachable_db_inv)
  from upload_results_new_event_success [OF inv assms(2,3,4)] obtain d' added
    where up: "upload_results n date_text rows d = (Inr (RedirectResponse Root 303), d')"
      and led: "map result_data (results d') = map result_data (results d) @ added"
      and all2: "list_all2 (row_result (created_event n dt d) d') rows added"
    by blast
  from list_all2_row [OF all2 assms(5)] obtain t
    where t: "t \<in> set added" "row_result (created_event n dt d) d' row t" by blast
  from t(2) assms(6) obtain p pos where p: "p \<in> set (players d')" "p_name p = []"
    "t = (e_id (created_event n dt d), p_id p, pos, points_for pos)"
    by (auto simp: row_result_def)
  from t(1) have "t \<in> set (map result_data (results d'))" by (simp add: led)
  then obtain r where r: "r \<in> set (results d')" "result_data r = t" by auto
  from r(2) p(3) have "player_id r = p_id p" "event_id r = e_id (created_event n dt d)"
    by (simp_all add: result_data_def)
  with p(1,2) r(1) have blank: "\<exists>p \<in> set (players d'). p_name p = [] \<and>
       (\<exists>r \<in> set (results d'). player_id r = p_id p \<and> event_id r = e_id (created_event n dt d))"
    by blast
  have "length (map result_data (results d')) = length (map result_data (results d) @ added)"
    by (simp only: led)
  then have len: "length (results d') = length (results d) + length rows"
    using list_all2_lengthD [OF all2] by simp
  from blank len show ?thesis by (simp add: up)
qed

theorem upload_results_blank_player_accepted_witness:
  "fst (upload_results ''Cup'' ''2024-05-01''
      [\<lparr>col_player = ''Alice'', col_position = ''2''\<rparr>,
       \<lparr>col_player = ''  '', col_position = ''1''\<rparr>] empty_db) =
     Inr (RedirectResponse Root 303) \<and>
   length (results (snd (upload_results ''Cup'' ''2024-05-01''
      [\<lparr>col_player = ''Alice'', col_position = ''2''\<rparr>,
       \<lparr>col_player = ''  '', col_position = ''1''\<rparr>] empty_db))) = 2"
proof -
  let ?rows = "[\<lparr>col_player = ''Alice'', col_position = ''2''\<rparr>,
       \<lparr>col_player = ''  '', col_position = ''1''\<rparr>]"
  have a: "parse_event_date ''2024-05-01'' = Inr (Date 2024 5 1)" by code_simp
  have b: "\<not> (\<exists>e \<in> set (events empty_db). same_identity ''Cup'' (Date 2024 5 1) e)"
    by (simp add: empty_db_def)
  have c: "\<forall>row \<in> set ?rows. well_formed row" by code_simp
  have e: "\<lparr>col_player = ''  '', col_position = ''1''\<rparr> \<in> set ?rows" by simp
  have f: "strip (col_player \<lparr>col_player = ''  '', col_position = ''1''\<rparr>) = []" by code_simp
  from upload_results_blank_player_accepted [OF initial a b c e f]
  show ?thesis by (simp add: empty_db_def)
qed

text \<open>
  C5 as stated fails: a batch whose only row has a blank player name is accepted, and a
  player, the event and a result are stored.
\<close>

theorem upload_results_blank_player_counterexample:
  "strip ''  '' = [] \<and>
   upload_results ''Cup'' ''2024-05-01'' [\<lparr>col_player = ''  '', col_position = ''1''\<rparr>] empty_db =
     (Inr (RedirectResponse Root 303),
      \<lparr>players = [\<lparr>p_id = 1, p_name = []\<rparr>],
       events = [\<lparr>e_id = 1, e_name = ''Cup'', event_date = Date 2024 5 1, start_time = None,
                  location = None, format = None, registration_url = None,
                  description = None\<rparr>],
       results = [\<lparr>r_id = 1, event_id = 1, player_id = 1, position = 1, points = 25\<rparr>]\<rparr>)"
  by code_simp


lemma find_player_Some: "n \<in> p_name ` set ps \<Longrightarrow> \<exists>p. find (\<lambda>p. p_name p = n) ps = Some p"
  by (cases "find (\<lambda>p. p_name p = n) ps") (auto simp: find_player_None)

lemma upload_rows_known_players:
  "\<forall>row \<in> set rows. row_name row \<in> p_name ` set (players (stored s)) \<Longrightarrow>
   stored (snd (upload_rows event rows s)) = stored s"
proof (induction rows arbitrary: s)
  case Nil
  then show ?case by simp
next
  case (Cons row rows)
  from Cons.prems have "strip (col_player row) \<in> p_name ` set (players (stored s))"
    by (simp add: row_name_def)
  from find_player_Some [OF this] obtain p
    where p: "find (\<lambda>p. p_name p = strip (col_player row)) (players (stored s)) = Some p" ..
  show ?case
  proof (cases "py_int (col_position row)")
    case None
    then show ?thesis by simp
  next
    case (Some pos)
    let ?s2 = "add (New_Result (e_id event) (p_id p) pos (points_for pos)) s"
    have "\<forall>row \<in> set rows. row_name row \<in> p_name ` set (players (stored ?s2))"
      using Cons.prems by simp
    from Cons.IH [OF this] show ?thesis
      using Some p by (simp add: resolve_player_def)
  qed
qed

lemma resolve_player_names:
  assumes "sess_inv s"
  shows "p_name ` set (players (stored (snd (resolve_player n s)))) \<subseteq>
         insert n (p_name ` set (players (stored s)))"
proof (cases "find (\<lambda>p. p_name p = n) (players (stored s))")
  case (Some p)
  then show ?thesis by (auto simp: resolve_player_def)
next
  case None
  then have fresh: "n \<notin> p_name ` set (players (stored s))" by (simp add: find_player_None)
  obtain r s1 where c: "commit (add (New_Player n) s) = (r, s1)" by force
  show ?thesis
  proof (cases r)
    case (Some err)
    with c have "s1 = add (New_Player n) s" by (auto dest: commit_Some_same)
    with None c Some show ?thesis by (auto simp: resolve_player_def)
  next
    case None': None
    note ca = commit_add_player [OF assms fresh c [unfolded None']]
    from None c None' show ?thesis by (auto simp: resolve_player_def ca(3))
  qed
qed

lemma upload_rows_names:
  "sess_inv s \<Longrightarrow> e_id event \<in> e_id ` set (events (stored s)) \<Longrightarrow>
   p_name ` set (players (stored (snd (upload_rows event rows s)))) \<subseteq>
     p_name ` set (players (stored s)) \<union> row_name ` set rows"
proof (induction rows arbitrary: s)
  case Nil
  then show ?case by simp
next
  case (Cons row rows)
  show ?case
  proof (cases "py_int (col_position row)")
    case None
    then show ?thesis by auto
  next
    case (Some pos)
    obtain r s1 where rp: "resolve_player (strip (col_player row)) s = (r, s1)" by force
    note inv = resolve_player_inv [OF Cons.prems(1), of "strip (col_player row)", unfolded rp]
    note nm = resolve_player_names [OF Cons.prems(1), of "strip (col_player row)",
        unfolded rp snd_conv]
    show ?thesis
    proof (cases r)
      case (Inl err)
      with inv have "stored s1 = stored s" by simp
      with Some rp Inl show ?thesis by auto
    next
      case (Inr p)
      with inv have s1: "sess_inv s1" "p \<in> set (players (stored s1))"
        "events (stored s1) = events (stored s)" by simp_all
      let ?s2 = "add (New_Result (e_id event) (p_id p) pos (points_for pos)) s1"
      have "sess_inv ?s2" using s1 Cons.prems(2) by (auto simp: sess_inv_def)
      moreover have "e_id event \<in> e_id ` set (events (stored ?s2))"
        using s1(3) Cons.prems(2) by simp
      ultimately have ih: "p_name ` set (players (stored (snd (upload_rows event rows ?s2)))) \<subseteq>
          p_name ` set (players (stored ?s2)) \<union> row_name ` set rows"
        by (rule Cons.IH)
      have step: "upload_rows event (row # rows) s = upload_rows event rows ?s2"
        using Some rp Inr by simp
      from ih nm show ?thesis
        unfolding step by (auto simp: row_name_def)
    qed
  qed
qed

text \<open>
  Either every row names a player that is known already, or there is a last row that
  names a new one.
\<close>

lemma last_new_player_cases:
  "(\<forall>row \<in> set rows. row_name row \<in> K) \<or>
   (\<exists>pre1 r pre2. rows = pre1 @ r # pre2 \<and> row_name r \<notin> K \<union> row_name ` set pre1 \<and>
      (\<forall>row \<in> set pre2. row_name row \<in> K \<union> row_name ` set (pre1 @ [r])))"
proof (induction rows rule: rev_induct)
  case Nil
  then show ?case by simp
next
  case (snoc x rows)
  show ?case
  proof (cases "row_name x \<in> K \<union> row_name ` set rows")
    case False
    then have "rows @ [x] = rows @ x # [] \<and> row_name x \<notin> K \<union> row_name ` set rows \<and>
      (\<forall>row \<in> set []. row_name row \<in> K \<union> row_name ` set (rows @ [x]))" by simp
    then show ?thesis by blast
  next
    case True
    from snoc.IH show ?thesis
    proof
      assume a: "\<forall>row \<in> set rows. row_name row \<in> K"
      with True have "row_name x \<in> K" by auto
      with a show ?thesis by simp
    next
      assume "\<exists>pre1 r pre2. rows = pre1 @ r # pre2 \<and> row_name r \<notin> K \<union> row_name ` set pre1 \<and>
        (\<forall>row \<in> set pre2. row_name row \<in> K \<union> row_name ` set (pre1 @ [r]))"
      then obtain pre1 r pre2 where b: "rows = pre1 @ r # pre2"
        "row_name r \<notin> K \<union> row_name ` set pre1"
        "\<forall>row \<in> set pre2. row_name row \<in> K \<union> row_name ` set (pre1 @ [r])" by blast
      from True b(1,3) have "row_name x \<in> K \<union> row_name ` set (pre1 @ [r])" by auto
      with b(3) have "\<forall>row \<in> set (pre2 @ [x]). row_name row \<in> K \<union> row_name ` set (pre1 @ [r])"
        by simp
      moreover have "rows @ [x] = pre1 @ r # (pre2 @ [x])" by (simp add: b(1))
      ultimately show ?thesis using b(2) by blast
    qed
  qed
qed


lemma upload_rows_players_known:
  assumes "sess_inv s" "list_all storable (new s)"
    and "e_id event \<in> e_id ` set (events (stored s))" "\<forall>row \<in> set rows. well_formed row"
    and "upload_rows event rows s = (None, s1)"
  shows "p_name ` set (players (stored s)) \<union> row_name ` set rows \<subseteq>
         p_name ` set (players (stored s1))"
proof -
  from upload_rows_success [OF assms(1-4)] assms(5) obtain added
    where all2: "list_all2 (row_result event (stored s1)) rows added" by auto
  have "set (players (stored s)) \<subseteq> set (players (stored s1))"
    using upload_rows_grows [OF assms(1,3), of rows] assms(5) by (simp add: set_mono_prefix)
  moreover have "row_name row \<in> p_name ` set (players (stored s1))" if "row \<in> set rows" for row
  proof -
    from list_all2_row [OF all2 that] obtain t where "row_result event (stored s1) row t" by blast
    then show ?thesis unfolding row_result_def row_name_def by (metis imageI)
  qed
  ultimately show ?thesis by auto
qed

text \<open>
  The commit that creates the player of the last such row writes the results of the rows
  before it; no result is written after it.
\<close>

lemma results_after_last_creation:
  assumes "sess_inv s" "list_all storable (new s)"
    and "e_id event \<in> e_id ` set (events (stored s))"
    and "\<forall>row \<in> set pre1. well_formed row" and "well_formed r"
    and "row_name r \<notin> p_name ` set (players (stored s)) \<union> row_name ` set pre1"
    and "\<forall>row \<in> set pre2. row_name row \<in>
           p_name ` set (players (stored s)) \<union> row_name ` set (pre1 @ [r])"
  shows "results (stored (snd (upload_rows event (pre1 @ r # pre2) s))) =
         results (stored (snd (commit (snd (upload_rows event pre1 s)))))"
proof -
  let ?n = "strip (col_player r)"
  from upload_rows_success [OF assms(1-4)] obtain s1
    where ur: "upload_rows event pre1 s = (None, s1)" and s1: "sess_inv s1"
      "list_all storable (new s1)"
    by blast
  have sub: "p_name ` set (players (stored s1)) \<subseteq>
      p_name ` set (players (stored s)) \<union> row_name ` set pre1"
    using upload_rows_names [OF assms(1,3), of pre1] ur by simp
  have sup: "p_name ` set (players (stored s)) \<union> row_name ` set pre1 \<subseteq>
      p_name ` set (players (stored s1))"
    by (rule upload_rows_players_known [OF assms(1-4) ur])
  from sub assms(6) have fresh: "?n \<notin> p_name ` set (players (stored s1))"
    by (auto simp: row_name_def)
  then have none: "find (\<lambda>p. p_name p = ?n) (players (stored s1)) = None"
    by (simp add: find_player_None)
  let ?flushed = "fold flush_row (new s1) (stored s1)"
  let ?s1' = "\<lparr>stored = flush_row (New_Player ?n) ?flushed, new = []\<rparr>"
  have c: "commit (add (New_Player ?n) s1) = (None, ?s1')"
    using s1(2) by (simp add: commit_def)
  have c0: "commit s1 = (None, \<lparr>stored = ?flushed, new = []\<rparr>)"
    using s1(2) by (simp add: commit_def)
  from assms(5) obtain pos where pos: "py_int (col_position r) = Some pos"
    by (auto simp: well_formed_def split: option.splits)
  let ?s2 = "add (New_Result (e_id event) (p_id (refresh_player ?s1')) pos (points_for pos)) ?s1'"
  have step: "upload_rows event (r # pre2) s1 = upload_rows event pre2 ?s2"
    by (simp add: pos resolve_player_def none c Let_def)
  note ca = commit_add_player [OF s1(1) fresh c]
  have names2: "p_name ` set (players (stored ?s2)) = insert ?n (p_name ` set (players (stored s1)))"
    using ca(3) by auto
  have "\<forall>row \<in> set pre2. row_name row \<in> p_name ` set (players (stored ?s2))"
  proof
    fix row assume "row \<in> set pre2"
    with assms(7) have "row_name row = row_name r \<or>
        row_name row \<in> p_name ` set (players (stored s)) \<union> row_name ` set pre1"
      by auto
    with sup have "row_name row = ?n \<or> row_name row \<in> p_name ` set (players (stored s1))"
      unfolding row_name_def by blast
    then show "row_name row \<in> p_name ` set (players (stored ?s2))"
      unfolding names2 by blast
  qed
  from upload_rows_known_players [OF this, of event]
  have k: "stored (snd (upload_rows event pre2 ?s2)) = stored ?s2" .
  have e1: "upload_rows event (pre1 @ r # pre2) s = upload_rows event pre2 ?s2"
    by (simp only: upload_rows_append ur prod.case option.case step)
  have e2: "results (stored ?s2) = results ?flushed" by simp
  have e3: "results (stored (snd (commit (snd (upload_rows event pre1 s))))) = results ?flushed"
    by (simp only: ur c0 snd_conv) simp
  show ?thesis by (simp only: e1 k e2 e3)
qed

text \<open>
  C2, as amended. When the event is new and a row of the batch has a position that does
  not parse, the upload fails, and nothing already committed is rolled back: the event
  created for the batch stays stored, the players and events are exactly those an upload
  of the rows before the failing row leaves, and the results are a prefix of the results
  of that upload. Rows of earlier uploads are kept. If the rows before the failing row
  are well formed, the error is \<^verbatim>\<open>ValueError\<close>, each of them has its player stored,
  and the stored results are exactly these: if all their players were known before the
  call, the results from before the call and no player more; otherwise, with the last
  row among them that names a new player, the results an upload of the rows before that
  row leaves, one for each of those rows. Results added after that last commit are
  dropped.
\<close>

theorem upload_results_unparsed_position_keeps_commits:
  assumes "reachable d" and "parse_event_date date_text = Inr dt"
    and "\<not> (\<exists>e \<in> set (events d). same_identity n dt e)"
    and "py_int (col_position bad) = None"
  shows "isl (fst (upload_results n date_text (pre @ bad # post) d)) \<and>
    events (snd (upload_results n date_text (pre @ bad # post) d)) =
      events d @ [created_event n dt d] \<and>
    prefix (players d) (players (snd (upload_results n date_text (pre @ bad # post) d))) \<and>
    prefix (results d) (results (snd (upload_results n date_text (pre @ bad # post) d))) \<and>
    events (snd (upload_results n date_text (pre @ bad # post) d)) =
      events (snd (upload_results n date_text pre d)) \<and>
    players (snd (upload_results n date_text (pre @ bad # post) d)) =
      players (snd (upload_results n date_text pre d)) \<and>
    prefix (results (snd (upload_results n date_text (pre @ bad # post) d)))
      (results (snd (upload_results n date_text pre d))) \<and>
    ((\<forall>row \<in> set pre. well_formed row) \<longrightarrow>
       fst (upload_results n date_text (pre @ bad # post) d) = Inl ValueError \<and>
       (\<forall>row \<in> set pre. strip (col_player row) \<in>
          p_name ` set (players (snd (upload_results n date_text (pre @ bad # post) d)))) \<and>
       ((\<forall>row \<in> set pre. row_name row \<in> p_name ` set (players d)) \<longrightarrow>
          results (snd (upload_results n date_text (pre @ bad # post) d)) = results d \<and>
          players (snd (upload_results n date_text (pre @ bad # post) d)) = players d) \<and>
       (\<forall>pre1 r pre2.
          pre = pre1 @ r # pre2 \<and>
          row_name r \<notin> p_name ` set (players d) \<union> row_name ` set pre1 \<and>
          (\<forall>row \<in> set pre2. row_name row \<in>
             p_name ` set (players d) \<union> row_name ` set (pre1 @ [r])) \<longrightarrow>
          results (snd (upload_results n date_text (pre @ bad # post) d)) =
            results (snd (upload_results n date_text pre1 d)) \<and>
          length (results (snd (upload_results n date_text (pre @ bad # post) d))) =
            length (results d) + length pre1))"
proof -
  let ?s0 = "event_created n dt d"
  let ?ev = "created_event n dt d"
  from assms(1) have inv: "db_inv d" by (rule reachable_db_inv)
  from assms(3) have none: "find (\<lambda>e. e_name e = n \<and> event_date e = dt) (events d) = None"
    by (simp add: find_event_None)
  note s0 = event_created_inv [OF inv, of n dt, unfolded event_created_props(3)]
  have st0: "list_all storable (new ?s0)" by (simp add: event_created_props)
  have pl0: "players (stored ?s0) = players d" "results (stored ?s0) = results d"
    by (simp_all add: event_created_props)
  obtain r s1 where ur: "upload_rows ?ev pre ?s0 = (r, s1)" by force
  have all: "upload_rows ?ev (pre @ bad # post) ?s0 =
      (case r of Some err \<Rightarrow> (Some err, s1) | None \<Rightarrow> (Some ValueError, s1))"
    by (simp add: upload_rows_append ur assms(4) split: option.splits)
  have full: "upload_results n date_text (pre @ bad # post) d =
      (Inl (case r of Some err \<Rightarrow> err | None \<Rightarrow> ValueError), stored s1)"
    by (simp add: upload_results_created [OF assms(2) none] event_created_props(3) all
        split: option.splits)
  have part: "snd (upload_results n date_text pre d) =
      (case r of Some err \<Rightarrow> stored s1 | None \<Rightarrow> stored (snd (commit s1)))"
    by (simp add: upload_results_created [OF assms(2) none] event_created_props(3) ur
        split: option.splits prod.splits)
  note gr = upload_rows_grows [OF s0, of pre, unfolded ur snd_conv event_created_props(1)]
  have fails: "isl (fst (upload_results n date_text (pre @ bad # post) d))"
    by (simp add: full)
  have evs: "events (stored s1) = events d @ [?ev]" using gr by simp
  have grow: "prefix (players d) (players (stored s1))" "prefix (results d) (results (stored s1))"
    using gr by simp_all
  have same: "events (stored s1) = events (snd (upload_results n date_text pre d)) \<and>
      players (stored s1) = players (snd (upload_results n date_text pre d)) \<and>
      prefix (results (stored s1)) (results (snd (upload_results n date_text pre d)))"
  proof (cases r)
    case (Some err)
    then show ?thesis by (simp add: part)
  next
    case None
    with upload_rows_inv [OF s0, of pre] ur have s1: "sess_inv s1" by simp
    from commit_results_inv(3,4) [OF s1] commit_prefix [OF s1] None
    show ?thesis by (simp add: part)
  qed
  have wf: "(\<forall>row \<in> set pre. well_formed row) \<longrightarrow>
       fst (upload_results n date_text (pre @ bad # post) d) = Inl ValueError \<and>
       (\<forall>row \<in> set pre. strip (col_player row) \<in> p_name ` set (players (stored s1))) \<and>
       ((\<forall>row \<in> set pre. row_name row \<in> p_name ` set (players d)) \<longrightarrow>
          results (stored s1) = results d \<and> players (stored s1) = players d) \<and>
       (\<forall>pre1 r pre2.
          pre = pre1 @ r # pre2 \<and>
          row_name r \<notin> p_name ` set (players d) \<union> row_name ` set pre1 \<and>
          (\<forall>row \<in> set pre2. row_name row \<in>
             p_name ` set (players d) \<union> row_name ` set (pre1 @ [r])) \<longrightarrow>
          results (stored s1) = results (snd (upload_results n date_text pre1 d)) \<and>
          length (results (stored s1)) = length (results d) + length pre1)"
  proof (intro impI conjI allI)
    assume w: "\<forall>row \<in> set pre. well_formed row"
    from upload_rows_success [OF s0(1) st0 s0(2) w] ur obtain added
      where r: "r = None" and all2: "list_all2 (row_result ?ev (stored s1)) pre added"
      by auto
    show "fst (upload_results n date_text (pre @ bad # post) d) = Inl ValueError"
      by (simp add: full r)
    show "\<forall>row \<in> set pre. strip (col_player row) \<in> p_name ` set (players (stored s1))"
    proof
      fix row assume "row \<in> set pre"
      from list_all2_row [OF all2 this] obtain t where "row_result ?ev (stored s1) row t"
        by blast
      then show "strip (col_player row) \<in> p_name ` set (players (stored s1))"
        unfolding row_result_def by (metis imageI)
    qed
  next
    assume "\<forall>row \<in> set pre. row_name row \<in> p_name ` set (players d)"
    then have "\<forall>row \<in> set pre. row_name row \<in> p_name ` set (players (stored ?s0))"
      by (simp only: pl0)
    from upload_rows_known_players [OF this, of ?ev] ur have "stored s1 = stored ?s0" by simp
    then show "results (stored s1) = results d" "players (stored s1) = players d"
      by (simp_all only: pl0)
  next
    fix pre1 r' pre2
    assume w: "\<forall>row \<in> set pre. well_formed row"
      and b: "pre = pre1 @ r' # pre2 \<and>
          row_name r' \<notin> p_name ` set (players d) \<union> row_name ` set pre1 \<and>
          (\<forall>row \<in> set pre2. row_name row \<in>
             p_name ` set (players d) \<union> row_name ` set (pre1 @ [r']))"
    from b have split: "pre = pre1 @ r' # pre2" by blast
    from w split have w1: "\<forall>row \<in> set pre1. well_formed row" and wr: "well_formed r'"
      by simp_all
    from b have b2: "row_name r' \<notin> p_name ` set (players d) \<union> row_name ` set pre1"
      and b3: "\<forall>row \<in> set pre2. row_name row \<in>
           p_name ` set (players d) \<union> row_name ` set (pre1 @ [r'])"
      by blast+
    have new: "row_name r' \<notin> p_name ` set (players (stored ?s0)) \<union> row_name ` set pre1"
      unfolding pl0 by (rule b2)
    have known: "\<forall>row \<in> set pre2. row_name row \<in>
           p_name ` set (players (stored ?s0)) \<union> row_name ` set (pre1 @ [r'])"
      unfolding pl0 by (rule b3)
    from results_after_last_creation [OF s0(1) st0 s0(2) w1 wr new known] ur
    have res: "results (stored s1) = results (stored (snd (commit (snd (upload_rows ?ev pre1 ?s0)))))"
      by (simp add: split)
    from upload_rows_success [OF s0(1) st0 s0(2) w1] obtain sA
      where urA: "upload_rows ?ev pre1 ?s0 = (None, sA)" and sA: "list_all storable (new sA)"
      by blast
    from commit_storable [OF sA] obtain sB where cA: "commit sA = (None, sB)" ..
    have up1: "snd (upload_results n date_text pre1 d) = stored sB"
      by (simp add: upload_results_created [OF assms(2) none] event_created_props(3) urA cA)
    from res show eq: "results (stored s1) = results (snd (upload_results n date_text pre1 d))"
      by (simp add: up1 urA cA)
    from upload_results_new_event_success [OF inv assms(2,3) w1] obtain d1 added
      where u: "upload_results n date_text pre1 d = (Inr (RedirectResponse Root 303), d1)"
        and led: "map result_data (results d1) = map result_data (results d) @ added"
        and all2: "list_all2 (row_result ?ev d1) pre1 added"
      by blast
    have "length (map result_data (results d1)) = length (map result_data (results d) @ added)"
      by (simp only: led)
    then have "length (results d1) = length (results d) + length pre1"
      using list_all2_lengthD [OF all2] by simp
    then show "length (results (stored s1)) = length (results d) + length pre1"
      by (simp add: eq u)
  qed
  have d': "snd (upload_results n date_text (pre @ bad # post) d) = stored s1"
    by (simp add: full)
  from fails evs grow same wf show ?thesis
    unfolding d' by (intro conjI) simp_all
qed


theorem upload_results_unparsed_position_keeps_commits_witness:
  "fst (upload_results ''Cup'' ''2024-05-01''
      ([\<lparr>col_player = ''Alice'', col_position = ''1''\<rparr>,
        \<lparr>col_player = ''Zed'', col_position = ''2''\<rparr>] @
       \<lparr>col_player = ''Bob'', col_position = ''x''\<rparr> #
       [\<lparr>col_player = ''Bob'', col_position = ''4''\<rparr>,
        \<lparr>col_player = ''Eve'', col_position = ''5''\<rparr>]) empty_db) = Inl ValueError \<and>
   events (snd (upload_results ''Cup'' ''2024-05-01''
      ([\<lparr>col_player = ''Alice'', col_position = ''1''\<rparr>,
        \<lparr>col_player = ''Zed'', col_position = ''2''\<rparr>] @
       \<lparr>col_player = ''Bob'', col_position = ''x''\<rparr> #
       [\<lparr>col_player = ''Bob'', col_position = ''4''\<rparr>,
        \<lparr>col_player = ''Eve'', col_position = ''5''\<rparr>]) empty_db)) =
     [\<lparr>e_id = 1, e_name = ''Cup'', event_date = Date 2024 5 1, start_time = None,
        location = None, format = None, registration_url = None, description = None\<rparr>] \<and>
   results (snd (upload_results ''Cup'' ''2024-05-01''
      ([\<lparr>col_player = ''Alice'', col_position = ''1''\<rparr>,
        \<lparr>col_player = ''Zed'', col_position = ''2''\<rparr>] @
       \<lparr>col_player = ''Bob'', col_position = ''x''\<rparr> #
       [\<lparr>col_player = ''Bob'', col_position = ''4''\<rparr>,
        \<lparr>col_player = ''Eve'', col_position = ''5''\<rparr>]) empty_db)) =
     results (snd (upload_results ''Cup'' ''2024-05-01''
       [\<lparr>col_player = ''Alice'', col_position = ''1''\<rparr>] empty_db)) \<and>
   length (results (snd (upload_results ''Cup'' ''2024-05-01''
      ([\<lparr>col_player = ''Alice'', col_position = ''1''\<rparr>,
        \<lparr>col_player = ''Zed'', col_position = ''2''\<rparr>] @
       \<lparr>col_player = ''Bob'', col_position = ''x''\<rparr> #
       [\<lparr>col_player = ''Bob'', col_position = ''4''\<rparr>,
        \<lparr>col_player = ''Eve'', col_position = ''5''\<rparr>]) empty_db))) = 1 \<and>
   results (snd (upload_results ''Cup'' ''2024-05-01''
      ([\<lparr>col_player = ''Alice'', col_position = ''1''\<rparr>] @
       \<lparr>col_player = ''Bob'', col_position = ''x''\<rparr> # [])
      (snd (upload_results ''Open'' ''2024-04-01''
         [\<lparr>col_player = ''Alice'', col_position = ''3''\<rparr>] empty_db)))) =
     results (snd (upload_results ''Open'' ''2024-04-01''
         [\<lparr>col_player = ''Alice'', col_position = ''3''\<rparr>] empty_db))"
proof -
  let ?alice = "\<lparr>col_player = ''Alice'', col_position = ''1''\<rparr>"
  let ?zed = "\<lparr>col_player = ''Zed'', col_position = ''2''\<rparr>"
  let ?bad = "\<lparr>col_player = ''Bob'', col_position = ''x''\<rparr>"
  let ?post = "[\<lparr>col_player = ''Bob'', col_position = ''4''\<rparr>,
        \<lparr>col_player = ''Eve'', col_position = ''5''\<rparr>]"
  let ?d1 = "snd (upload_results ''Open'' ''2024-04-01''
         [\<lparr>col_player = ''Alice'', col_position = ''3''\<rparr>] empty_db)"
  have a: "parse_event_date ''2024-05-01'' = Inr (Date 2024 5 1)" by code_simp
  have b: "\<not> (\<exists>e \<in> set (events empty_db). same_identity ''Cup'' (Date 2024 5 1) e)"
    by (simp add: empty_db_def)
  have c: "py_int (col_position ?bad) = None" by code_simp
  have w: "\<forall>row \<in> set [?alice, ?zed]. well_formed row" by code_simp
  have e: "events empty_db @ [created_event ''Cup'' (Date 2024 5 1) empty_db] =
     [\<lparr>e_id = 1, e_name = ''Cup'', event_date = Date 2024 5 1, start_time = None,
        location = None, format = None, registration_url = None, description = None\<rparr>]"
    by (simp add: empty_db_def created_event_def next_id_def)
  note t = upload_results_unparsed_position_keeps_commits [OF initial a b c,
      of "[?alice, ?zed]" ?post]
  from t e have ev: "events (snd (upload_results ''Cup'' ''2024-05-01''
      ([?alice, ?zed] @ ?bad # ?post) empty_db)) =
     [\<lparr>e_id = 1, e_name = ''Cup'', event_date = Date 2024 5 1, start_time = None,
        location = None, format = None, registration_url = None, description = None\<rparr>]"
    by metis
  from t w have err: "fst (upload_results ''Cup'' ''2024-05-01''
      ([?alice, ?zed] @ ?bad # ?post) empty_db) = Inl ValueError"
    by blast
  from t w have last: "\<forall>pre1 r pre2.
          [?alice, ?zed] = pre1 @ r # pre2 \<and>
          row_name r \<notin> p_name ` set (players empty_db) \<union> row_name ` set pre1 \<and>
          (\<forall>row \<in> set pre2. row_name row \<in>
             p_name ` set (players empty_db) \<union> row_name ` set (pre1 @ [r])) \<longrightarrow>
          results (snd (upload_results ''Cup'' ''2024-05-01''
             ([?alice, ?zed] @ ?bad # ?post) empty_db)) =
            results (snd (upload_results ''Cup'' ''2024-05-01'' pre1 empty_db)) \<and>
          length (results (snd (upload_results ''Cup'' ''2024-05-01''
             ([?alice, ?zed] @ ?bad # ?post) empty_db))) =
            length (results empty_db) + length pre1"
    by blast
  have split: "[?alice, ?zed] = [?alice] @ ?zed # []" by simp
  have new: "row_name ?zed \<notin> p_name ` set (players empty_db) \<union> row_name ` set [?alice]"
    by code_simp
  have rest: "\<forall>row \<in> set []. row_name row \<in>
      p_name ` set (players empty_db) \<union> row_name ` set ([?alice] @ [?zed])"
    by simp
  note l = last [rule_format, of "[?alice]" ?zed "[]", OF conjI [OF split conjI [OF new rest]]]
  from l have res: "results (snd (upload_results ''Cup'' ''2024-05-01''
             ([?alice, ?zed] @ ?bad # ?post) empty_db)) =
            results (snd (upload_results ''Cup'' ''2024-05-01'' [?alice] empty_db))"
    by (rule conjunct1)
  have one: "length (results empty_db) + length [?alice] = 1" by (simp add: empty_db_def)
  from l have "length (results (snd (upload_results ''Cup'' ''2024-05-01''
             ([?alice, ?zed] @ ?bad # ?post) empty_db))) =
      length (results empty_db) + length [?alice]"
    by (rule conjunct2)
  then have len: "length (results (snd (upload_results ''Cup'' ''2024-05-01''
             ([?alice, ?zed] @ ?bad # ?post) empty_db))) = 1"
    by (simp only: one)
  let ?D1 = "\<lparr>players = [\<lparr>p_id = 1, p_name = ''Alice''\<rparr>],
      events = [\<lparr>e_id = 1, e_name = ''Open'', event_date = Date 2024 4 1, start_time = None,
                 location = None, format = None, registration_url = None,
                 description = None\<rparr>],
      results = [\<lparr>r_id = 1, event_id = 1, player_id = 1, position = 3, points = 15\<rparr>]\<rparr>"
  have d1: "?d1 = ?D1" by code_simp
  have r1: "reachable ?d1" by (rule after_upload_results [OF initial])
  have b1: "\<not> (\<exists>e \<in> set (events ?d1). same_identity ''Cup'' (Date 2024 5 1) e)"
    unfolding d1 by (simp add: same_identity_def)
  have w1: "\<forall>row \<in> set [?alice]. well_formed row" by code_simp
  have k1: "\<forall>row \<in> set [?alice]. row_name row \<in> p_name ` set (players ?d1)"
    unfolding d1 by code_simp
  from upload_results_unparsed_position_keeps_commits [OF r1 a b1 c, of "[?alice]" "[]"] w1 k1
  have known: "results (snd (upload_results ''Cup'' ''2024-05-01''
      ([?alice] @ ?bad # []) ?d1)) = results ?d1"
    by blast
  from err ev res len known show ?thesis by (intro conjI)
qed

text \<open>
  C2 as stated fails: with the third of five rows unparseable, the state after the
  failed upload holds the new event, two new players and one result.
\<close>

theorem upload_results_unparsed_position_counterexample:
  "py_int ''x'' = None \<and>
   upload_results ''Cup'' ''2024-05-01''
      [\<lparr>col_player = ''Alice'', col_position = ''1''\<rparr>,
       \<lparr>col_player = ''Zed'', col_position = ''2''\<rparr>,
       \<lparr>col_player = ''Bob'', col_position = ''x''\<rparr>,
       \<lparr>col_player = ''Bob'', col_position = ''4''\<rparr>,
       \<lparr>col_player = ''Eve'', col_position = ''5''\<rparr>] empty_db =
     (Inl ValueError,
      \<lparr>players = [\<lparr>p_id = 1, p_name = ''Alice''\<rparr>, \<lparr>p_id = 2, p_name = ''Zed''\<rparr>],
       events = [\<lparr>e_id = 1, e_name = ''Cup'', event_date = Date 2024 5 1, start_time = None,
                  location = None, format = None, registration_url = None,
                  description = None\<rparr>],
       results = [\<lparr>r_id = 1, event_id = 1, player_id = 1, position = 1, points = 25\<rparr>]\<rparr>)"
  by code_simp

end
